theory Spec2Isabelle
  imports Complex_Main "HOL-Library.Log_Nat"
begin

section \<open>Numbers\<close>

text \<open>
  Every number of the source is an IEEE 754 double. Coordinates, scores and clock
  readings are integers well inside the range in which doubles are exact, and are
  modelled as \<^typ>\<open>int\<close>. Speeds and intervals are fractional: they are modelled as
  the rationals that the doubles denote, and every arithmetic operation on them rounds
  its exact result to the nearest double, ties to the even significand (\<open>fl\<close> below).
  The exponent range is not bounded here: no speed or interval of a session comes near
  an overflow or a subnormal number.
\<close>

text \<open>Rounding to the nearest integer, ties to even.\<close>

definition roundTiesToEven :: "rat \<Rightarrow> int" where
  "roundTiesToEven q =
     (let f = \<lfloor>q\<rfloor>; r = q - of_int f
      in if r < 1 / 2 then f else if 1 / 2 < r then f + 1 else if even f then f else f + 1)"

text \<open>
  The exponent \<open>e\<close> of the unit in the last place of a positive number \<open>x\<close>: the one
  with \<open>2^52 \<le> x / 2^e < 2^53\<close>, so that the significand has 53 bits.
\<close>

definition ulpExponent :: "rat \<Rightarrow> int" where
  "ulpExponent x =
     (let (p, q) = quotient_of x; d = bitlen p - bitlen q
      in if x < 2 powi d then d - 53 else d - 52)"

text \<open>The double nearest to a rational.\<close>

definition fl :: "rat \<Rightarrow> rat" where
  "fl x =
     (if x = 0 then 0
      else if x < 0
        then - (of_int (roundTiesToEven (- x / 2 powi ulpExponent (- x))) * 2 powi ulpExponent (- x))
        else of_int (roundTiesToEven (x / 2 powi ulpExponent x)) * 2 powi ulpExponent x)"

section \<open>Game constants\<close>

text \<open>
  The constants at the head of \<^verbatim>\<open>script.js\<close>. The literal \<^verbatim>\<open>0.1\<close> is the double
  nearest to one tenth.
\<close>

definition CANVAS_WIDTH :: int where "CANVAS_WIDTH = 1000"
definition CANVAS_HEIGHT :: int where "CANVAS_HEIGHT = 650"
definition GRID_SIZE :: int where "GRID_SIZE = 20"
definition BASE_MOVES_PER_SECOND :: rat where "BASE_MOVES_PER_SECOND = 8"
definition BASE_MOVE_INTERVAL :: rat where "BASE_MOVE_INTERVAL = fl (1000 / BASE_MOVES_PER_SECOND)"
definition GRACE_PERIOD :: int where "GRACE_PERIOD = 2000"
definition SPEED_INCREASE_RATE :: rat where "SPEED_INCREASE_RATE = fl (1 / 10)"
definition MAX_SPEED_MULTIPLIER :: rat where "MAX_SPEED_MULTIPLIER = 2"

section \<open>Grid vectors\<close>

text \<open>
  The object literals \<^verbatim>\<open>{ x: .., y: .. }\<close> of the source, used both for positions and
  for headings. The fields are called \<open>vx\<close> and \<open>vy\<close> here.
\<close>

record vec =
  vx :: int
  vy :: int

text \<open>
  The test \<^verbatim>\<open>a.x === -b.x && a.y === -b.y\<close> that the source writes out in
  \<^verbatim>\<open>handleKeyDown\<close>, \<^verbatim>\<open>getNextDirection\<close>, \<^verbatim>\<open>updateAI\<close> and
  \<^verbatim>\<open>AISnake.update\<close>.
\<close>

definition isReverse :: "vec \<Rightarrow> vec \<Rightarrow> bool" where
  "isReverse a b \<longleftrightarrow> vx a = - vx b \<and> vy a = - vy b"

text \<open>The four headings that the source ever constructs.\<close>

definition directions :: "vec list" where
  "directions = [\<lparr>vx = 1, vy = 0\<rparr>, \<lparr>vx = -1, vy = 0\<rparr>, \<lparr>vx = 0, vy = 1\<rparr>, \<lparr>vx = 0, vy = -1\<rparr>]"

definition isUnit :: "vec \<Rightarrow> bool" where
  "isUnit d \<longleftrightarrow> d \<in> set directions"

section \<open>InputHandler\<close>

record InputHandler =
  directionQueue :: "vec list"
  currentDirection :: vec
  pauseKeyDown :: bool
  pauseKeyWasDown :: bool
  startKeyPressed :: bool

text \<open>The constructor (the two listener registrations are wiring, not state).\<close>

definition new_InputHandler :: InputHandler where
  "new_InputHandler =
     \<lparr>directionQueue = [], currentDirection = \<lparr>vx = 1, vy = 0\<rparr>,
      pauseKeyDown = False, pauseKeyWasDown = False, startKeyPressed = False\<rparr>"

text \<open>
  \<^verbatim>\<open>String.prototype.toLowerCase\<close> on the ASCII range, which is all that the key names
  compared against need.
\<close>

definition toLowerChar :: "char \<Rightarrow> char" where
  "toLowerChar c =
     (let n = (of_char c :: nat) in if 65 \<le> n \<and> n \<le> 90 then char_of (n + 32) else c)"

definition toLowerCase :: "string \<Rightarrow> string" where
  "toLowerCase s = map toLowerChar s"

text \<open>
  Lines 62 to 80 of \<^verbatim>\<open>handleKeyDown\<close>: what happens to a recognised direction key.
\<close>

definition handleDirection :: "vec \<Rightarrow> InputHandler \<Rightarrow> InputHandler" where
  "handleDirection newDirection h =
     (if vx newDirection = - vx (currentDirection h) \<and> vy newDirection = - vy (currentDirection h)
      then h
      else
        let q = filter (\<lambda>dir. vx dir \<noteq> vx newDirection \<or> vy dir \<noteq> vy newDirection)
                  (directionQueue h)
        in if vx newDirection \<noteq> vx (currentDirection h) \<or> vy newDirection \<noteq> vy (currentDirection h)
           then h\<lparr>directionQueue := q @ [newDirection]\<rparr>
           else h\<lparr>directionQueue := q\<rparr>)"

text \<open>\<^verbatim>\<open>handleKeyDown(e)\<close>, given \<^verbatim>\<open>e.key\<close>.\<close>

definition handleKeyDown :: "string \<Rightarrow> InputHandler \<Rightarrow> InputHandler" where
  "handleKeyDown eKey h =
     (let key = toLowerCase eKey in
      if key = ''arrowup'' \<or> key = ''w'' then handleDirection \<lparr>vx = 0, vy = -1\<rparr> h
      else if key = ''arrowdown'' \<or> key = ''s'' then handleDirection \<lparr>vx = 0, vy = 1\<rparr> h
      else if key = ''arrowleft'' \<or> key = ''a'' then handleDirection \<lparr>vx = -1, vy = 0\<rparr> h
      else if key = ''arrowright'' \<or> key = ''d'' then handleDirection \<lparr>vx = 1, vy = 0\<rparr> h
      else if key = '' '' \<or> key = ''p'' then h\<lparr>pauseKeyDown := True, startKeyPressed := True\<rparr>
      else if key = ''enter'' then h\<lparr>startKeyPressed := True\<rparr>
      else h)"

text \<open>
  \<^verbatim>\<open>getNextDirection()\<close>: the returned heading and the handler after the call.
\<close>

definition getNextDirection :: "InputHandler \<Rightarrow> vec \<times> InputHandler" where
  "getNextDirection h =
     (case directionQueue h of
        [] \<Rightarrow> (currentDirection h, h)
      | nextDir # rest \<Rightarrow>
          if \<not> (vx nextDir = - vx (currentDirection h) \<and> vy nextDir = - vy (currentDirection h))
          then (nextDir, h\<lparr>directionQueue := rest, currentDirection := nextDir\<rparr>)
          else (currentDirection h, h\<lparr>directionQueue := rest\<rparr>))"

definition handleKeyUp :: "string \<Rightarrow> InputHandler \<Rightarrow> InputHandler" where
  "handleKeyUp eKey h =
     (let key = toLowerCase eKey in
      if key = '' '' \<or> key = ''p'' then h\<lparr>pauseKeyDown := False, pauseKeyWasDown := False\<rparr>
      else if key = ''enter'' then h\<lparr>startKeyPressed := False\<rparr>
      else h)"

definition checkStartPressed :: "InputHandler \<Rightarrow> bool \<times> InputHandler" where
  "checkStartPressed h =
     (if startKeyPressed h then (True, h\<lparr>startKeyPressed := False\<rparr>) else (False, h))"

definition checkPauseToggle :: "InputHandler \<Rightarrow> bool \<times> InputHandler" where
  "checkPauseToggle h =
     (if pauseKeyDown h \<and> \<not> pauseKeyWasDown h then (True, h\<lparr>pauseKeyWasDown := True\<rparr>)
      else (False, h))"

text \<open>
  Everything that can happen to an input handler: the two keyboard listeners, and the
  three methods that \<^verbatim>\<open>Game.update\<close> calls. A handler is reachable when it is the
  result of running a list of such events from the constructor's state.
\<close>

datatype input_event =
    KeyDown string
  | KeyUp string
  | GetNextDirection
  | CheckStartPressed
  | CheckPauseToggle

fun input_step :: "InputHandler \<Rightarrow> input_event \<Rightarrow> InputHandler" where
  "input_step h (KeyDown k) = handleKeyDown k h"
| "input_step h (KeyUp k) = handleKeyUp k h"
| "input_step h GetNextDirection = snd (getNextDirection h)"
| "input_step h CheckStartPressed = snd (checkStartPressed h)"
| "input_step h CheckPauseToggle = snd (checkPauseToggle h)"

definition input_run :: "input_event list \<Rightarrow> InputHandler" where
  "input_run evs = foldl input_step new_InputHandler evs"


section \<open>Clock and randomness\<close>

text \<open>
  \<^verbatim>\<open>Date.now()\<close> and \<^verbatim>\<open>Math.random()\<close> are the two inputs that the code reads from
  its environment. Each is a stream of the values that successive calls return; a call
  takes the first value and leaves the rest. \<^verbatim>\<open>Math.random()\<close> returns a number
  \<open>u\<close> with \<open>0 \<le> u < 1\<close>; products with small integers are taken exactly.
\<close>

type_synonym clock = "nat \<Rightarrow> int"
type_synonym rng = "nat \<Rightarrow> rat"

definition Date_now :: "clock \<Rightarrow> int \<times> clock" where
  "Date_now c = (c 0, \<lambda>i. c (Suc i))"

definition Math_random :: "rng \<Rightarrow> rat \<times> rng" where
  "Math_random r = (r 0, \<lambda>i. r (Suc i))"

definition unit_draws :: "rng \<Rightarrow> bool" where
  "unit_draws r \<longleftrightarrow> (\<forall>i. 0 \<le> r i \<and> r i < 1)"

section \<open>Snake\<close>

text \<open>
  A snake is its list of segments, head first. The colour, the drawn segment size and the
  eye-blink timer only feed the drawing code and are left out, as are \<^verbatim>\<open>updateEyes\<close> and
  the \<^verbatim>\<open>draw\<close> methods.

  Reading \<^verbatim>\<open>this.segments[0]\<close> of a snake without segments gives \<^verbatim>\<open>undefined\<close>, and the
  following \<^verbatim>\<open>head.x\<close> throws a TypeError. A method that can throw returns an option,
  \<open>None\<close> being the exception.
\<close>

record Snake =
  segments :: "vec list"
  isPlayer :: bool

definition new_Snake :: "int \<Rightarrow> int \<Rightarrow> bool \<Rightarrow> nat \<Rightarrow> Snake" where
  "new_Snake x y player initialLength =
     \<lparr>segments = map (\<lambda>i. \<lparr>vx = x - int i * GRID_SIZE, vy = y\<rparr>) [0..<initialLength],
      isPlayer = player\<rparr>"

definition Snake_update :: "vec \<Rightarrow> 'a Snake_scheme \<Rightarrow> 'a Snake_scheme option" where
  "Snake_update dir s =
     (case segments s of
        [] \<Rightarrow> None
      | head # _ \<Rightarrow>
          let newHead = \<lparr>vx = vx head + vx dir * GRID_SIZE, vy = vy head + vy dir * GRID_SIZE\<rparr>
          in Some (s\<lparr>segments := butlast (newHead # segments s)\<rparr>))"

text \<open>
  \<^verbatim>\<open>grow()\<close> never throws: without segments it pushes the spread of \<^verbatim>\<open>undefined\<close>, an
  object without coordinates. No such segment exists in this model, and \<open>None\<close> stands
  for that outcome.
\<close>

definition Snake_grow :: "'a Snake_scheme \<Rightarrow> 'a Snake_scheme option" where
  "Snake_grow s =
     (case segments s of
        [] \<Rightarrow> None
      | _ # _ \<Rightarrow> let tail = last (segments s) in Some (s\<lparr>segments := segments s @ [tail]\<rparr>))"

definition checkWallCollision :: "int \<Rightarrow> int \<Rightarrow> 'a Snake_scheme \<Rightarrow> bool option" where
  "checkWallCollision canvasWidth canvasHeight s =
     (case segments s of
        [] \<Rightarrow> None
      | head # _ \<Rightarrow>
          Some (vx head < GRID_SIZE div 2 \<or> vx head \<ge> canvasWidth - GRID_SIZE div 2 \<or>
                vy head < GRID_SIZE div 2 \<or> vy head \<ge> canvasHeight - GRID_SIZE div 2))"

text \<open>The loops that compare one position with each segment of a list and stop at a hit.\<close>

fun hitsSegments :: "vec \<Rightarrow> vec list \<Rightarrow> bool" where
  "hitsSegments p [] = False"
| "hitsSegments p (segment # rest) =
     (if vx p = vx segment \<and> vy p = vy segment then True else hitsSegments p rest)"

text \<open>Without segments the loop of \<^verbatim>\<open>checkSelfCollision\<close> has no round, and nothing is read.\<close>

definition checkSelfCollision :: "'a Snake_scheme \<Rightarrow> bool" where
  "checkSelfCollision s =
     (case segments s of [] \<Rightarrow> False | head # rest \<Rightarrow> hitsSegments head rest)"

definition checkCollisionWithSnake :: "'a Snake_scheme \<Rightarrow> 'b Snake_scheme \<Rightarrow> bool option" where
  "checkCollisionWithSnake s otherSnake =
     (case segments s of
        [] \<Rightarrow> (if segments otherSnake = [] then Some False else None)
      | head # _ \<Rightarrow> Some (hitsSegments head (segments otherSnake)))"

definition checkFoodCollision :: "'a Snake_scheme \<Rightarrow> vec \<Rightarrow> bool option" where
  "checkFoodCollision s food =
     (case segments s of
        [] \<Rightarrow> None
      | head # _ \<Rightarrow> Some (vx head = vx food \<and> vy head = vy food))"

section \<open>AISnake\<close>

record AISnake = Snake +
  direction :: vec
  nextDirection :: vec
  aiTimer :: int
  aiChangeInterval :: int

text \<open>
  The constructor draws twice: the change interval, and the start of the eye-blink timer
  (whose value is not kept here).
\<close>

definition new_AISnake :: "int \<Rightarrow> int \<Rightarrow> nat \<Rightarrow> rng \<Rightarrow> AISnake \<times> rng" where
  "new_AISnake x y initialLength r =
     (let (u, r1) = Math_random r;
          (blink, r2) = Math_random r1
      in (\<lparr>segments = segments (new_Snake x y False initialLength), isPlayer = False,
           direction = \<lparr>vx = 1, vy = 0\<rparr>, nextDirection = \<lparr>vx = 1, vy = 0\<rparr>,
           aiTimer = 0, aiChangeInterval = 4 + \<lfloor>u * 4\<rfloor>\<rparr>, r2))"

text \<open>
  Lines 399 to 408: the choice of a new pending heading among the headings that are not
  the reverse of the current one. An index outside the array would make the pending
  heading \<^verbatim>\<open>undefined\<close> (and the next \<^verbatim>\<open>update\<close> throw); that is \<open>None\<close>.
\<close>

definition chooseDirection :: "rng \<Rightarrow> AISnake \<Rightarrow> (AISnake \<times> rng) option" where
  "chooseDirection r s =
     (let validDirections =
            filter (\<lambda>dir. \<not> (vx dir = - vx (direction s) \<and> vy dir = - vy (direction s))) directions;
          (u, r1) = Math_random r;
          k = \<lfloor>u * of_nat (length validDirections)\<rfloor>
      in if 0 \<le> k \<and> k < int (length validDirections)
         then Some (s\<lparr>nextDirection := validDirections ! nat k\<rparr>, r1)
         else None)"

definition AISnake_updateAI :: "int \<Rightarrow> int \<Rightarrow> rng \<Rightarrow> AISnake \<Rightarrow> (AISnake \<times> rng) option" where
  "AISnake_updateAI canvasWidth canvasHeight r s =
     (let s1 = s\<lparr>aiTimer := aiTimer s + 1\<rparr> in
      if aiTimer s1 \<ge> aiChangeInterval s1 then
        let (u, r1) = Math_random r;
            s2 = s1\<lparr>aiTimer := 0, aiChangeInterval := 4 + \<lfloor>u * 4\<rfloor>\<rparr>
        in case segments s2 of
             [] \<Rightarrow> None
           | head # _ \<Rightarrow>
               let nextX = vx head + vx (direction s2) * GRID_SIZE;
                   nextY = vy head + vy (direction s2) * GRID_SIZE;
                   margin = GRID_SIZE;
                   nearWall = (nextX < margin \<or> nextX \<ge> canvasWidth - margin \<or>
                               nextY < margin \<or> nextY \<ge> canvasHeight - margin)
               in if nearWall then chooseDirection r1 s2
                  else let (p, r2) = Math_random r1
                       in if p < 1 / 4 then chooseDirection r2 s2 else Some (s2, r2)
      else Some (s1, r))"

definition AISnake_update :: "AISnake \<Rightarrow> AISnake option" where
  "AISnake_update s =
     (let s1 = (if vx (nextDirection s) \<noteq> - vx (direction s) \<or> vy (nextDirection s) \<noteq> - vy (direction s)
                then s\<lparr>direction := nextDirection s\<rparr> else s)
      in Snake_update (direction s1) s1)"

section \<open>Food\<close>

text \<open>
  The food is its position (size, colour and pulse are for drawing). \<^verbatim>\<open>respawn\<close> reads
  nothing of a snake but its segments, so the snakes are passed as their segment lists.
\<close>

type_synonym Food = vec

fun hitsAnySnake :: "vec \<Rightarrow> vec list list \<Rightarrow> bool" where
  "hitsAnySnake p [] = False"
| "hitsAnySnake p (snake # rest) = (if hitsSegments p snake then True else hitsAnySnake p rest)"

function respawn_loop ::
  "int \<Rightarrow> int \<Rightarrow> vec list list \<Rightarrow> bool \<Rightarrow> nat \<Rightarrow> rng \<Rightarrow> Food \<Rightarrow> Food \<times> rng" where
  "respawn_loop canvasWidth canvasHeight snakes validPosition attempts r food =
     (if \<not> validPosition \<and> attempts < 100 then
        let (u, r1) = Math_random r;
            gridX = \<lfloor>u * of_int ((canvasWidth - GRID_SIZE) div GRID_SIZE)\<rfloor>;
            (v, r2) = Math_random r1;
            gridY = \<lfloor>v * of_int ((canvasHeight - GRID_SIZE) div GRID_SIZE)\<rfloor>;
            food1 = \<lparr>vx = gridX * GRID_SIZE + GRID_SIZE div 2,
                     vy = gridY * GRID_SIZE + GRID_SIZE div 2\<rparr>
        in respawn_loop canvasWidth canvasHeight snakes (\<not> hitsAnySnake food1 snakes)
             (attempts + 1) r2 food1
      else (food, r))"
  by pat_completeness auto
termination
  by (relation "measure (\<lambda>(w, h, snakes, valid, attempts, r, food). 100 - attempts)") auto

declare respawn_loop.simps [simp del]

definition Food_respawn :: "int \<Rightarrow> int \<Rightarrow> vec list list \<Rightarrow> rng \<Rightarrow> Food \<Rightarrow> Food \<times> rng" where
  "Food_respawn canvasWidth canvasHeight snakes r food =
     respawn_loop canvasWidth canvasHeight snakes False 0 r food"

section \<open>Game\<close>

text \<open>
  What the game shows through the page: the four dashboard texts and the two speed
  buttons that \<^verbatim>\<open>updateUI\<close> writes, the final score, and whether the game-over panel
  and the start screen are hidden. The speed text is the number before it is formatted.
\<close>

record UI =
  scoreElement :: int
  lengthElement :: nat
  speedElement :: rat
  speedUpDisabled :: bool
  speedDownDisabled :: bool
  statusElement :: string
  finalScoreElement :: int
  gameOverHidden :: bool
  startScreenHidden :: bool

text \<open>
  The session state. The canvas has the size \<^const>\<open>CANVAS_WIDTH\<close> by
  \<^const>\<open>CANVAS_HEIGHT\<close> that the constructor gives it. The sound and the two
  timestamps of the frame loop are left out.
\<close>

record Game =
  score :: int
  isGameOver :: bool
  isPaused :: bool
  isWaitingToStart :: bool
  gameStartTime :: int
  isGracePeriod :: bool
  baseSpeed :: rat
  currentSpeed :: rat
  userSpeedMultiplier :: rat
  minSpeed :: rat
  maxSpeed :: rat
  moveInterval :: rat
  inputHandler :: InputHandler
  playerDirection :: vec
  playerSnake :: Snake
  aiSnakes :: "AISnake list"
  food :: Food
  ui :: UI

definition updateUI :: "Game \<Rightarrow> Game" where
  "updateUI g =
     g\<lparr>ui := (ui g)
        \<lparr>scoreElement := score g,
         lengthElement := length (segments (playerSnake g)),
         speedElement := currentSpeed g,
         speedUpDisabled := (userSpeedMultiplier g \<ge> maxSpeed g),
         speedDownDisabled := (userSpeedMultiplier g \<le> minSpeed g),
         statusElement :=
           (if isGameOver g then ''GAME OVER''
            else if isWaitingToStart g then ''READY''
            else if isPaused g then ''PAUSED''
            else ''RUNNING'')\<rparr>\<rparr>"

text \<open>
  \<^verbatim>\<open>updateSpeed\<close>: a rounded product and a rounded quotient. A division by zero
  gives \<open>0\<close> here and an infinity in the source; the current speed of a session is
  positive (see the theorem on the speed below).
\<close>

definition updateSpeed :: "Game \<Rightarrow> Game" where
  "updateSpeed g =
     (let g1 = g\<lparr>currentSpeed := fl (baseSpeed g * userSpeedMultiplier g)\<rparr>
      in g1\<lparr>moveInterval := fl (BASE_MOVE_INTERVAL / currentSpeed g1)\<rparr>)"

definition adjustSpeed :: "rat \<Rightarrow> Game \<Rightarrow> Game" where
  "adjustSpeed delta g =
     updateUI (updateSpeed
       (g\<lparr>userSpeedMultiplier :=
            max (minSpeed g) (min (maxSpeed g) (fl (userSpeedMultiplier g + delta)))\<rparr>))"

definition gameOver :: "Game \<Rightarrow> Game" where
  "gameOver g =
     updateUI (g\<lparr>isGameOver := True,
                 ui := (ui g)\<lparr>finalScoreElement := score g, gameOverHidden := False\<rparr>\<rparr>)"

text \<open>
  Line 730, the local constant \<^verbatim>\<open>speedMultiplier\<close>, as a function of the score:
  a rounded quotient, its floor, a rounded product and a rounded sum.
\<close>

definition speedMultiplier :: "int \<Rightarrow> rat" where
  "speedMultiplier s = fl (1 + fl (of_int \<lfloor>fl (of_int s / 50)\<rfloor> * SPEED_INCREASE_RATE))"

subsection \<open>The parts of \<^verbatim>\<open>Game.update\<close>\<close>

text \<open>Lines 703 to 711: waiting for the start key.\<close>

definition waitingStep :: "clock \<Rightarrow> Game \<Rightarrow> Game \<times> clock" where
  "waitingStep c g =
     (let (started, h1) = checkStartPressed (inputHandler g);
          (go, h2) = (if started then (True, h1) else checkPauseToggle h1);
          g1 = g\<lparr>inputHandler := h2\<rparr>
      in if go then
           let (now, c1) = Date_now c
           in (g1\<lparr>isWaitingToStart := False, gameStartTime := now, isGracePeriod := True,
                   ui := (ui g1)\<lparr>startScreenHidden := True\<rparr>\<rparr>, c1)
         else (g1, c))"

text \<open>
  Lines 714 to 719: the pause toggle. The expression on line 717 reads the clock twice,
  the minuend first.
\<close>

definition pauseStep :: "clock \<Rightarrow> Game \<Rightarrow> Game \<times> clock" where
  "pauseStep c g =
     (let (toggled, h1) = checkPauseToggle (inputHandler g);
          g1 = g\<lparr>inputHandler := h1\<rparr>
      in if toggled then
           let g2 = g1\<lparr>isPaused := \<not> isPaused g1\<rparr>
           in if \<not> isPaused g2 then
                let (t1, c1) = Date_now c;
                    (t2, c2) = Date_now c1
                in (g2\<lparr>gameStartTime := t1 - (t2 - gameStartTime g2)\<rparr>, c2)
              else (g2, c)
         else (g1, c))"

text \<open>Lines 738 to 742: each autonomous snake decides, then moves.\<close>

fun updateAISnakes :: "rng \<Rightarrow> AISnake list \<Rightarrow> (AISnake list \<times> rng) option" where
  "updateAISnakes r [] = Some ([], r)"
| "updateAISnakes r (snake # rest) =
     (case AISnake_updateAI CANVAS_WIDTH CANVAS_HEIGHT r snake of
        None \<Rightarrow> None
      | Some (s1, r1) \<Rightarrow>
          (case AISnake_update s1 of
             None \<Rightarrow> None
           | Some s2 \<Rightarrow>
               (case updateAISnakes r1 rest of
                  None \<Rightarrow> None
                | Some (rest', r2) \<Rightarrow> Some (s2 # rest', r2))))"

text \<open>Lines 725 to 746: grace flag, difficulty, and the movement of every snake.\<close>

definition moveStep :: "clock \<Rightarrow> rng \<Rightarrow> Game \<Rightarrow> (Game \<times> clock \<times> rng) option" where
  "moveStep c r g =
     (let (currentTime, c1) = Date_now c;
          g1 = g\<lparr>isGracePeriod := (currentTime - gameStartTime g < GRACE_PERIOD)\<rparr>;
          g2 = updateSpeed (g1\<lparr>baseSpeed := min (speedMultiplier (score g1)) MAX_SPEED_MULTIPLIER\<rparr>);
          (dir, h1) = getNextDirection (inputHandler g2);
          g3 = g2\<lparr>inputHandler := h1, playerDirection := dir\<rparr>
      in case updateAISnakes r (aiSnakes g3) of
           None \<Rightarrow> None
         | Some (snakes, r1) \<Rightarrow>
             (case Snake_update (playerDirection g3) (playerSnake g3) of
                None \<Rightarrow> None
              | Some p \<Rightarrow> Some (g3\<lparr>aiSnakes := snakes, playerSnake := p\<rparr>, c1, r1)))"

text \<open>
  The fatal checks are calls of three methods of the player: \<^verbatim>\<open>checkWallCollision\<close>,
  \<^verbatim>\<open>checkSelfCollision\<close>, and \<^verbatim>\<open>checkCollisionWithSnake\<close> with the autonomous
  snake at a position of the list. Which of them a tick calls, and in which order, is
  part of what the code does; the functions below return the calls made, in call order,
  next to the verdict.
\<close>

datatype fatal_check = WallCheck | SelfCheck | SnakeCheck nat

text \<open>
  Lines 756 to 761: the player against each autonomous snake, in list order, from
  position \<open>i\<close> of the list on. The loop stops at the first hit.
\<close>

fun collidesWithAny :: "Snake \<Rightarrow> nat \<Rightarrow> AISnake list \<Rightarrow> fatal_check list \<times> bool option" where
  "collidesWithAny p i [] = ([], Some False)"
| "collidesWithAny p i (aiSnake # rest) =
     (case checkCollisionWithSnake p aiSnake of
        None \<Rightarrow> ([SnakeCheck i], None)
      | Some hit \<Rightarrow>
          if hit then ([SnakeCheck i], Some True)
          else (let (checks, verdict) = collidesWithAny p (Suc i) rest
                in (SnakeCheck i # checks, verdict)))"

text \<open>
  Lines 749 to 762: whether this tick calls \<^verbatim>\<open>gameOver()\<close>. The wall test comes first,
  the self test is evaluated only when the wall test is false, and the loop over the
  autonomous snakes only when both are. In the grace period no check is called.
\<close>

definition fatalCollision :: "Game \<Rightarrow> fatal_check list \<times> bool option" where
  "fatalCollision g =
     (if \<not> isGracePeriod g then
        (case checkWallCollision CANVAS_WIDTH CANVAS_HEIGHT (playerSnake g) of
           None \<Rightarrow> ([WallCheck], None)
         | Some wall \<Rightarrow>
             if wall then ([WallCheck], Some True)
             else if checkSelfCollision (playerSnake g) then ([WallCheck, SelfCheck], Some True)
             else (let (checks, verdict) = collidesWithAny (playerSnake g) 0 (aiSnakes g)
                   in (WallCheck # SelfCheck # checks, verdict)))
      else ([], Some False))"

text \<open>Lines 765 to 771: food.\<close>

definition foodStep :: "rng \<Rightarrow> Game \<Rightarrow> (Game \<times> rng) option" where
  "foodStep r g =
     (case checkFoodCollision (playerSnake g) (food g) of
        None \<Rightarrow> None
      | Some eaten \<Rightarrow>
          if eaten then
            (case Snake_grow (playerSnake g) of
               None \<Rightarrow> None
             | Some p \<Rightarrow>
                 let g1 = updateUI (g\<lparr>playerSnake := p, score := score g + 10\<rparr>);
                     (f, r1) = Food_respawn CANVAS_WIDTH CANVAS_HEIGHT
                                 (segments (playerSnake g1) # map segments (aiSnakes g1)) r (food g1)
                 in Some (g1\<lparr>food := f\<rparr>, r1))
          else Some (g, r))"

text \<open>Lines 774 to 781: an autonomous snake on a wall gets the reverse as pending heading.\<close>

definition wallBounce :: "AISnake \<Rightarrow> AISnake option" where
  "wallBounce snake =
     (case checkWallCollision CANVAS_WIDTH CANVAS_HEIGHT snake of
        None \<Rightarrow> None
      | Some wall \<Rightarrow>
          if wall
          then Some (snake\<lparr>nextDirection := \<lparr>vx = - vx (direction snake), vy = - vy (direction snake)\<rparr>\<rparr>)
          else Some snake)"

fun wallBounces :: "AISnake list \<Rightarrow> AISnake list option" where
  "wallBounces [] = Some []"
| "wallBounces (snake # rest) =
     (case wallBounce snake of
        None \<Rightarrow> None
      | Some s1 \<Rightarrow> (case wallBounces rest of None \<Rightarrow> None | Some rest' \<Rightarrow> Some (s1 # rest')))"

subsection \<open>\<^verbatim>\<open>Game.update\<close>\<close>

text \<open>
  One call of \<^verbatim>\<open>update\<close>, with the clock and the random source before and after it.
  \<open>None\<close> is a TypeError that leaves the call (and with it the frame loop). The
  \<^verbatim>\<open>deltaTime\<close> argument only drives the eye-blink timers.
\<close>

definition Game_update :: "clock \<Rightarrow> rng \<Rightarrow> Game \<Rightarrow> (Game \<times> clock \<times> rng) option" where
  "Game_update c r g =
     (if isGameOver g then Some (g, c, r)
      else if isWaitingToStart g then
        (let (g1, c1) = waitingStep c g in Some (g1, c1, r))
      else
        let (g1, c1) = pauseStep c g
        in if isPaused g1 then Some (g1, c1, r)
           else
             (case moveStep c1 r g1 of
                None \<Rightarrow> None
              | Some (g2, c2, r2) \<Rightarrow>
                  (case snd (fatalCollision g2) of
                     None \<Rightarrow> None
                   | Some fatal \<Rightarrow>
                       if fatal then Some (gameOver g2, c2, r2)
                       else
                         (case foodStep r2 g2 of
                            None \<Rightarrow> None
                          | Some (g3, r3) \<Rightarrow>
                              (case wallBounces (aiSnakes g3) of
                                 None \<Rightarrow> None
                               | Some snakes \<Rightarrow> Some (g3\<lparr>aiSnakes := snakes\<rparr>, c2, r3))))))"

subsection \<open>The constructor\<close>

text \<open>
  Lines 624 to 641: one autonomous snake per spawn position. Each takes two draws (its
  length and its heading) and then the two of its own constructor. An index outside the
  array of headings would leave the snake with \<^verbatim>\<open>undefined\<close> headings (and its first
  \<^verbatim>\<open>updateAI\<close> or \<^verbatim>\<open>update\<close> throw); that is \<open>None\<close>.
\<close>

fun spawnAISnakes :: "vec list \<Rightarrow> rng \<Rightarrow> (AISnake list \<times> rng) option" where
  "spawnAISnakes [] r = Some ([], r)"
| "spawnAISnakes (spawnPos # rest) r =
     (let (u, r1) = Math_random r;
          aiInitialLength = 6 + \<lfloor>u * 3\<rfloor>;
          startX = (vx spawnPos div GRID_SIZE) * GRID_SIZE + GRID_SIZE div 2;
          startY = (vy spawnPos div GRID_SIZE) * GRID_SIZE + GRID_SIZE div 2;
          (v, r2) = Math_random r1;
          k = \<lfloor>v * of_nat (length directions)\<rfloor>
      in if 0 \<le> k \<and> k < int (length directions) then
           let randomDir = directions ! nat k;
               (aiSnake, r3) = new_AISnake startX startY (nat aiInitialLength) r2;
               aiSnake1 = aiSnake\<lparr>direction := randomDir, nextDirection := randomDir\<rparr>
           in (case spawnAISnakes rest r3 of
                 None \<Rightarrow> None
               | Some (snakes, r4) \<Rightarrow> Some (aiSnake1 # snakes, r4))
         else None)"

definition spawnPositions :: "vec list" where
  "spawnPositions =
     [\<lparr>vx = 150, vy = 150\<rparr>, \<lparr>vx = CANVAS_WIDTH - 150, vy = 150\<rparr>,
      \<lparr>vx = 150, vy = CANVAS_HEIGHT - 150\<rparr>, \<lparr>vx = CANVAS_WIDTH - 150, vy = CANVAS_HEIGHT - 150\<rparr>]"

text \<open>
  \<^verbatim>\<open>new Game()\<close>, given the page as it is before the constructor writes to it. The
  first call of the frame loop, at time \<open>0\<close>, does not reach \<^verbatim>\<open>update\<close>.
\<close>

definition new_Game :: "UI \<Rightarrow> clock \<Rightarrow> rng \<Rightarrow> (Game \<times> clock \<times> rng) option" where
  "new_Game page c r =
     (let (now, c1) = Date_now c;
          playerStartX = (CANVAS_WIDTH div 2 div GRID_SIZE) * GRID_SIZE + GRID_SIZE div 2;
          playerStartY = (CANVAS_HEIGHT div 2 div GRID_SIZE) * GRID_SIZE + GRID_SIZE div 2;
          player = new_Snake playerStartX playerStartY True 6
      in case spawnAISnakes spawnPositions r of
           None \<Rightarrow> None
         | Some (snakes, r1) \<Rightarrow>
             let (f, r2) = Food_respawn CANVAS_WIDTH CANVAS_HEIGHT
                             (segments player # map segments snakes) r1 \<lparr>vx = 0, vy = 0\<rparr>
             in Some (updateUI
                  \<lparr>score = 0, isGameOver = False, isPaused = False, isWaitingToStart = True,
                   gameStartTime = now, isGracePeriod = True, baseSpeed = 1, currentSpeed = 1,
                   userSpeedMultiplier = 1, minSpeed = 1 / 2, maxSpeed = 5 / 2,
                   moveInterval = BASE_MOVE_INTERVAL, inputHandler = new_InputHandler,
                   playerDirection = \<lparr>vx = 1, vy = 0\<rparr>, playerSnake = player,
                   aiSnakes = snakes, food = f, ui = page\<rparr>, c1, r2))"

section \<open>Predicates used in the statements\<close>

text \<open>The invariant of reachable handlers: only unit headings, no heading queued twice.\<close>

definition input_inv :: "InputHandler \<Rightarrow> bool" where
  "input_inv h \<longleftrightarrow>
     isUnit (currentDirection h) \<and> list_all isUnit (directionQueue h) \<and> distinct (directionQueue h)"

text \<open>Two headings at a right angle.\<close>

definition perpendicular :: "vec \<Rightarrow> vec \<Rightarrow> bool" where
  "perpendicular a b \<longleftrightarrow> vx a * vx b + vy a * vy b = 0"

text \<open>
  An autonomous snake as the constructor makes it and every method keeps it: at least one
  segment, and unit vectors as current and as pending heading.
\<close>

definition ai_inv :: "AISnake \<Rightarrow> bool" where
  "ai_inv s \<longleftrightarrow> segments s \<noteq> [] \<and> isUnit (direction s) \<and> isUnit (nextDirection s)"

text \<open>A session in which no snake is without segments.\<close>

definition snakes_present :: "Game \<Rightarrow> bool" where
  "snakes_present g \<longleftrightarrow>
     segments (playerSnake g) \<noteq> [] \<and> list_all (\<lambda>s. segments s \<noteq> []) (aiSnakes g)"

text \<open>
  The state of a session between two calls: no snake without segments, autonomous snakes
  with unit headings, and a handler with the invariant above.
\<close>

definition session_inv :: "Game \<Rightarrow> bool" where
  "session_inv g \<longleftrightarrow>
     snakes_present g \<and> list_all ai_inv (aiSnakes g) \<and> input_inv (inputHandler g)"


text \<open>What a finished session shows: the game-over flag and the page.\<close>

definition sessionReport :: "(Game \<times> clock \<times> rng) option \<Rightarrow> (bool \<times> UI) option" where
  "sessionReport res = map_option (\<lambda>(g, c, r). (isGameOver g, ui g)) res"

text \<open>
  Whether the player of the state that a call of \<^verbatim>\<open>update\<close> leaves is in a wall
  position, and whether its head is on a segment of an autonomous snake.
\<close>

definition playerOnWall :: "(Game \<times> clock \<times> rng) option \<Rightarrow> bool" where
  "playerOnWall res =
     (case res of
        None \<Rightarrow> False
      | Some (g, c, r) \<Rightarrow> checkWallCollision CANVAS_WIDTH CANVAS_HEIGHT (playerSnake g) = Some True)"

definition playerOnSnake :: "(Game \<times> clock \<times> rng) option \<Rightarrow> bool" where
  "playerOnSnake res =
     (case res of
        None \<Rightarrow> False
      | Some (g, c, r) \<Rightarrow> snd (collidesWithAny (playerSnake g) 0 (aiSnakes g)) = Some True)"

text \<open>
  The fatal checks that a call of \<^verbatim>\<open>update\<close> on a running session makes, with their
  verdict: those on the state after the pause toggle and the movement.
\<close>

definition checksOfTick :: "clock \<Rightarrow> rng \<Rightarrow> Game \<Rightarrow> (fatal_check list \<times> bool option) option" where
  "checksOfTick c r g =
     (case pauseStep c g of
        (g1, c1) \<Rightarrow> map_option (\<lambda>(g2, c2, r2). fatalCollision g2) (moveStep c1 r g1))"

text \<open>Several calls of \<^verbatim>\<open>update\<close> in a row.\<close>

fun ticks :: "nat \<Rightarrow> clock \<Rightarrow> rng \<Rightarrow> Game \<Rightarrow> (Game \<times> clock \<times> rng) option" where
  "ticks 0 c r g = Some (g, c, r)"
| "ticks (Suc n) c r g =
     (case Game_update c r g of
        None \<Rightarrow> None
      | Some (g1, c1, r1) \<Rightarrow> ticks n c1 r1 g1)"

text \<open>Head, heading and pending heading of each autonomous snake of a result.\<close>

definition aiHeadings :: "(Game \<times> clock \<times> rng) option \<Rightarrow> (vec option \<times> vec \<times> vec) list option" where
  "aiHeadings res =
     map_option
       (\<lambda>(g, c, r). map (\<lambda>s. (case segments s of [] \<Rightarrow> None | head # _ \<Rightarrow> Some head,
                                 direction s, nextDirection s)) (aiSnakes g))
       res"

text \<open>Anchor of the grace period, grace flag and pause flag of a result.\<close>

definition graceAnchor :: "(Game \<times> clock \<times> rng) option \<Rightarrow> (int \<times> bool \<times> bool) option" where
  "graceAnchor res = map_option (\<lambda>(g, c, r). (gameStartTime g, isGracePeriod g, isPaused g)) res"

text \<open>Base speed and movement interval of a result.\<close>

definition speedOf :: "(Game \<times> clock \<times> rng) option \<Rightarrow> (rat \<times> rat) option" where
  "speedOf res = map_option (\<lambda>(g, c, r). (baseSpeed g, moveInterval g)) res"

section \<open>Concrete inputs\<close>


text \<open>A random source that returns \<open>1/2\<close> at every call.\<close>

definition half_draws :: rng where
  "half_draws = (\<lambda>i. 1 / 2)"

text \<open>
  Sessions that are running (started, not paused, score \<open>0\<close>, no key pressed) with one
  autonomous snake; the anchor of the grace period is time \<open>0\<close>.
\<close>

definition new_page :: UI where
  "new_page =
     \<lparr>scoreElement = 0, lengthElement = 6, speedElement = 1, speedUpDisabled = False,
      speedDownDisabled = False, statusElement = ''RUNNING'', finalScoreElement = 0,
      gameOverHidden = True, startScreenHidden = True\<rparr>"

definition ai_at :: "int \<Rightarrow> int \<Rightarrow> vec \<Rightarrow> AISnake" where
  "ai_at x y dir =
     \<lparr>segments = segments (new_Snake x y False 6), isPlayer = False,
      direction = dir, nextDirection = dir, aiTimer = 0, aiChangeInterval = 7\<rparr>"

definition session_with :: "Snake \<Rightarrow> AISnake list \<Rightarrow> Game" where
  "session_with player snakes =
     \<lparr>score = 0, isGameOver = False, isPaused = False, isWaitingToStart = False,
      gameStartTime = 0, isGracePeriod = True, baseSpeed = 1, currentSpeed = 1,
      userSpeedMultiplier = 1, minSpeed = 1 / 2, maxSpeed = 5 / 2,
      moveInterval = BASE_MOVE_INTERVAL, inputHandler = new_InputHandler,
      playerDirection = \<lparr>vx = 1, vy = 0\<rparr>, playerSnake = player,
      aiSnakes = snakes, food = \<lparr>vx = 250, vy = 250\<rparr>, ui = new_page\<rparr>"

text \<open>
  The player one step left of the cell \<open>(990, 330)\<close> by the right wall and heading
  right, an autonomous snake one step above that cell and heading down.
\<close>

definition wall_game :: Game where
  "wall_game = session_with (new_Snake 970 330 True 6) [ai_at 990 310 \<lparr>vx = 0, vy = 1\<rparr>]"

text \<open>The same meeting in the middle of the canvas, at \<open>(490, 330)\<close>.\<close>

definition inner_game :: Game where
  "inner_game = session_with (new_Snake 470 330 True 6) [ai_at 490 310 \<lparr>vx = 0, vy = 1\<rparr>]"

text \<open>
  The player in the middle, an autonomous snake heading right with its head at
  \<open>(970, 150)\<close>, one step from the cells by the right wall.
\<close>

definition bounce_game :: Game where
  "bounce_game = session_with (new_Snake 510 330 True 6) [ai_at 970 150 \<lparr>vx = 1, vy = 0\<rparr>]"

text \<open>A paused session in which the pause key has just been pressed again.\<close>

definition paused_game :: Game where
  "paused_game =
     (session_with (new_Snake 510 330 True 6) [ai_at 150 150 \<lparr>vx = 1, vy = 0\<rparr>])
       \<lparr>isPaused := True, inputHandler := new_InputHandler\<lparr>pauseKeyDown := True\<rparr>\<rparr>"

text \<open>
  A clock that reads 5000 ms at the first call and 3 ms more at each further call.
\<close>

definition ticking_clock :: clock where
  "ticking_clock = (\<lambda>i. 5000 + 3 * int i)"

text \<open>Clocks that stand at 100 ms and at 5000 ms.\<close>

definition early_clock :: clock where
  "early_clock = (\<lambda>i. 100)"

definition late_clock :: clock where
  "late_clock = (\<lambda>i. 5000)"

section \<open>Properties of the rounding\<close>

text \<open>
  Rounding to the nearest double is monotone and keeps the sign; these are the facts
  about \<^const>\<open>fl\<close> that the theorems on the speed need.
\<close>

lemma roundTiesToEven_bounds: "\<lfloor>q\<rfloor> \<le> roundTiesToEven q \<and> roundTiesToEven q \<le> \<lfloor>q\<rfloor> + 1"
  by (simp add: roundTiesToEven_def Let_def)

lemma roundTiesToEven_mono:
  assumes "a \<le> b"
  shows "roundTiesToEven a \<le> roundTiesToEven b"
proof (cases "\<lfloor>a\<rfloor> < \<lfloor>b\<rfloor>")
  case True
  then show ?thesis using roundTiesToEven_bounds [of a] roundTiesToEven_bounds [of b] by linarith
next
  case False
  then have eq: "\<lfloor>a\<rfloor> = \<lfloor>b\<rfloor>" using assms floor_mono [of a b] by linarith
  then have "a - of_int \<lfloor>a\<rfloor> \<le> b - of_int \<lfloor>b\<rfloor>" using assms by simp
  then show ?thesis using eq by (auto simp: roundTiesToEven_def Let_def)
qed

lemma bitlen_rat_bounds:
  fixes p :: int
  assumes "0 < p"
  shows "(2::rat) powi (bitlen p - 1) \<le> of_int p" and "(of_int p :: rat) < 2 powi bitlen p"
proof -
  have b: "1 \<le> bitlen p" using assms by (auto simp: bitlen_alt_def)
  from bitlen_bounds [OF assms]
  have lo: "2 ^ nat (bitlen p - 1) \<le> p" and hi: "p < 2 ^ nat (bitlen p)" by auto
  have "(of_int (2 ^ nat (bitlen p - 1)) :: rat) \<le> of_int p" using lo by (simp only: of_int_le_iff)
  then show "(2::rat) powi (bitlen p - 1) \<le> of_int p"
    using b by (simp add: power_int_def)
  have "(of_int p :: rat) < of_int (2 ^ nat (bitlen p))" using hi by (simp only: of_int_less_iff)
  then show "(of_int p :: rat) < 2 powi bitlen p"
    using b by (simp add: power_int_def)
qed

lemma pow2_shift: "(2::rat) ^ n * 2 powi e = 2 powi (int n + e)"
proof -
  have "(2::rat) powi (int n + e) = 2 powi int n * 2 powi e" by (rule power_int_add) simp
  then show ?thesis by (simp only: power_int_of_nat)
qed

lemma ulpExponent_spec:
  assumes "0 < x"
  shows "2 ^ 52 * 2 powi ulpExponent x \<le> x" and "x < 2 ^ 53 * 2 powi ulpExponent x"
proof -
  obtain p q where pq: "quotient_of x = (p, q)" by (cases "quotient_of x")
  have q: "0 < q" using quotient_of_denom_pos [OF pq] .
  have x: "x = of_int p / of_int q" using quotient_of_div [OF pq] .
  have p: "0 < p"
  proof (rule ccontr)
    assume "\<not> 0 < p"
    then have "(of_int p :: rat) \<le> 0" by simp
    then have "x \<le> 0" using q x by (simp add: divide_nonpos_pos)
    then show False using assms by simp
  qed
  define d where "d = bitlen p - bitlen q"
  have qr: "(0::rat) < of_int q" using q by simp
  have lo: "2 powi (d - 1) < x"
  proof -
    have "(2::rat) powi (d - 1) = 2 powi (bitlen p - 1) / 2 powi bitlen q"
      by (simp add: d_def power_int_diff)
    also have "\<dots> \<le> of_int p / 2 powi bitlen q"
      using bitlen_rat_bounds(1) [OF p] by (simp add: divide_right_mono)
    also have "\<dots> < of_int p / of_int q"
      using bitlen_rat_bounds(2) [OF q] p qr by (simp add: divide_strict_left_mono)
    finally show ?thesis using x by simp
  qed
  have hi: "x < 2 powi (d + 1)"
  proof -
    have "x = of_int p / of_int q" by (rule x)
    also have "\<dots> < 2 powi bitlen p / of_int q"
      using bitlen_rat_bounds(2) [OF p] qr by (simp add: divide_strict_right_mono)
    also have "\<dots> \<le> 2 powi bitlen p / 2 powi (bitlen q - 1)"
      by (rule frac_le) (use bitlen_rat_bounds(1) [OF q] in simp_all)
    also have "\<dots> = 2 powi (bitlen p - (bitlen q - 1))"
      by (subst power_int_diff) simp_all
    also have "bitlen p - (bitlen q - 1) = d + 1"
      by (simp add: d_def)
    finally show ?thesis .
  qed
  have bin: "ulpExponent x = (if x < 2 powi d then d - 53 else d - 52)"
    by (simp add: ulpExponent_def pq d_def)
  have e1: "(2::rat) ^ 52 * 2 powi (d - 53) = 2 powi (d - 1)"
    using pow2_shift [of 52 "d - 53"] by simp
  have e2: "(2::rat) ^ 53 * 2 powi (d - 53) = 2 powi d"
    using pow2_shift [of 53 "d - 53"] by simp
  have e3: "(2::rat) ^ 52 * 2 powi (d - 52) = 2 powi d"
    using pow2_shift [of 52 "d - 52"] by simp
  have e4: "(2::rat) ^ 53 * 2 powi (d - 52) = 2 powi (d + 1)"
    using pow2_shift [of 53 "d - 52"] by (simp add: add.commute)
  show "2 ^ 52 * 2 powi ulpExponent x \<le> x"
  proof (cases "x < 2 powi d")
    case True
    then have "ulpExponent x = d - 53" using bin by simp
    then show ?thesis using lo e1 by simp
  next
    case False
    then have "ulpExponent x = d - 52" using bin by simp
    then show ?thesis using False e3 by simp
  qed
  show "x < 2 ^ 53 * 2 powi ulpExponent x"
  proof (cases "x < 2 powi d")
    case True
    then have "ulpExponent x = d - 53" using bin by simp
    then show ?thesis using True e2 by simp
  next
    case False
    then have "ulpExponent x = d - 52" using bin by simp
    then show ?thesis using hi e4 by simp
  qed
qed

lemma ulpExponent_mono:
  assumes "0 < x" and "x \<le> y"
  shows "ulpExponent x \<le> ulpExponent y"
proof (rule ccontr)
  assume "\<not> ulpExponent x \<le> ulpExponent y"
  then have "ulpExponent y + 1 \<le> ulpExponent x" by simp
  then have "(2::rat) powi (ulpExponent y + 1) \<le> 2 powi ulpExponent x"
    by (simp add: power_int_increasing)
  then have "(2::rat) ^ 52 * 2 powi (ulpExponent y + 1) \<le> 2 ^ 52 * 2 powi ulpExponent x" by simp
  moreover have "(2::rat) ^ 52 * 2 powi (ulpExponent y + 1) = 2 ^ 53 * 2 powi ulpExponent y"
    using pow2_shift [of 52 "ulpExponent y + 1"] pow2_shift [of 53 "ulpExponent y"] by (simp add: add.commute)
  ultimately have "2 ^ 53 * 2 powi ulpExponent y \<le> x"
    using ulpExponent_spec(1) [OF assms(1)] by linarith
  moreover have "y < 2 ^ 53 * 2 powi ulpExponent y" using ulpExponent_spec(2) [of y] assms by simp
  ultimately show False using assms(2) by linarith
qed

lemma significand_bounds:
  assumes "0 < x"
  shows "2 ^ 52 \<le> roundTiesToEven (x / 2 powi ulpExponent x)" and "roundTiesToEven (x / 2 powi ulpExponent x) \<le> 2 ^ 53"
proof -
  have pos: "(0::rat) < 2 powi ulpExponent x" by simp
  have lo: "2 ^ 52 \<le> x / 2 powi ulpExponent x"
    using ulpExponent_spec(1) [OF assms] pos by (simp add: pos_le_divide_eq)
  have hi: "x / 2 powi ulpExponent x < 2 ^ 53"
    using ulpExponent_spec(2) [OF assms] pos by (simp add: pos_divide_less_eq)
  have "(2::int) ^ 52 \<le> \<lfloor>x / 2 powi ulpExponent x\<rfloor>"
    using lo by (simp add: le_floor_iff)
  then show "2 ^ 52 \<le> roundTiesToEven (x / 2 powi ulpExponent x)"
    using roundTiesToEven_bounds [of "x / 2 powi ulpExponent x"] by linarith
  have "\<lfloor>x / 2 powi ulpExponent x\<rfloor> < (2::int) ^ 53"
    using hi by (simp add: floor_less_iff)
  then show "roundTiesToEven (x / 2 powi ulpExponent x) \<le> 2 ^ 53"
    using roundTiesToEven_bounds [of "x / 2 powi ulpExponent x"] by linarith
qed

lemma fl_pos: "0 < x \<Longrightarrow> 0 < fl x"
proof -
  assume x: "0 < x"
  have "(0::int) < 2 ^ 52" by simp
  then have "0 < roundTiesToEven (x / 2 powi ulpExponent x)" using significand_bounds(1) [OF x] by linarith
  then have "(0::rat) < of_int (roundTiesToEven (x / 2 powi ulpExponent x)) * 2 powi ulpExponent x" by simp
  then show ?thesis using x by (simp add: fl_def)
qed

lemma fl_mono_pos:
  assumes "0 < x" and "x \<le> y"
  shows "fl x \<le> fl y"
proof -
  have y: "0 < y" using assms by simp
  let ?ex = "ulpExponent x" and ?ey = "ulpExponent y"
  have fx: "fl x = of_int (roundTiesToEven (x / 2 powi ?ex)) * 2 powi ?ex" using assms(1) by (simp add: fl_def)
  have fy: "fl y = of_int (roundTiesToEven (y / 2 powi ?ey)) * 2 powi ?ey" using y by (simp add: fl_def)
  show ?thesis
  proof (cases "?ex = ?ey")
    case True
    have "x / 2 powi ?ey \<le> y / 2 powi ?ey" using assms(2) by (simp add: divide_right_mono)
    then have "roundTiesToEven (x / 2 powi ?ey) \<le> roundTiesToEven (y / 2 powi ?ey)" by (rule roundTiesToEven_mono)
    then have "(of_int (roundTiesToEven (x / 2 powi ?ey)) :: rat) \<le> of_int (roundTiesToEven (y / 2 powi ?ey))" by simp
    then show ?thesis using True fx fy by (simp add: mult_right_mono)
  next
    case False
    then have "?ex + 1 \<le> ?ey" using ulpExponent_mono [OF assms] by simp
    then have step: "(2::rat) powi (?ex + 1) \<le> 2 powi ?ey" by (simp add: power_int_increasing)
    have "(of_int (roundTiesToEven (x / 2 powi ?ex)) :: rat) \<le> of_int (2 ^ 53)"
      using significand_bounds(2) [OF assms(1)] by (simp only: of_int_le_iff)
    then have "fl x \<le> 2 ^ 53 * 2 powi ?ex" using fx by (simp add: mult_right_mono)
    also have "\<dots> = 2 ^ 52 * 2 powi (?ex + 1)"
      using pow2_shift [of 52 "?ex + 1"] pow2_shift [of 53 "?ex"] by (simp add: add.commute)
    also have "\<dots> \<le> 2 ^ 52 * 2 powi ?ey" using step by simp
    also have "\<dots> \<le> fl y"
    proof -
      have "(of_int (2 ^ 52) :: rat) \<le> of_int (roundTiesToEven (y / 2 powi ?ey))"
        using significand_bounds(1) [OF y] by (simp only: of_int_le_iff)
      then show ?thesis using fy by (simp add: mult_right_mono)
    qed
    finally show ?thesis .
  qed
qed

lemma fl_neg: "fl (- x) = - fl x"
  by (cases "x = 0"; cases "x < 0") (auto simp: fl_def)

lemma fl_mono:
  assumes "x \<le> y"
  shows "fl x \<le> fl y"
proof -
  consider "0 < x" | "x \<le> 0" "0 \<le> y" | "y < 0" using assms by linarith
  then show ?thesis
  proof cases
    case 1
    then show ?thesis using assms by (rule fl_mono_pos)
  next
    case 2
    have "fl x \<le> 0"
    proof (cases "x = 0")
      case True
      then show ?thesis by (simp add: fl_def)
    next
      case False
      then have "0 < - x" using 2 by simp
      then have "0 < fl (- x)" by (rule fl_pos)
      then show ?thesis by (simp add: fl_neg)
    qed
    moreover have "0 \<le> fl y"
    proof (cases "y = 0")
      case True
      then show ?thesis by (simp add: fl_def)
    next
      case False
      then have "0 < y" using 2 by simp
      then show ?thesis using fl_pos [of y] by simp
    qed
    ultimately show ?thesis by simp
  next
    case 3
    then have "0 < - y" "- y \<le> - x" using assms by simp_all
    then have "fl (- y) \<le> fl (- x)" by (rule fl_mono_pos)
    then show ?thesis by (simp add: fl_neg)
  qed
qed

lemma fl_nonneg: "0 \<le> x \<Longrightarrow> 0 \<le> fl x"
  using fl_mono [of 0 x] by (simp add: fl_def)

lemma fl_one: "fl 1 = 1"
  by code_simp

lemma BASE_MOVE_INTERVAL_eq: "BASE_MOVE_INTERVAL = 125"
  by code_simp

lemma SPEED_INCREASE_RATE_pos: "0 < SPEED_INCREASE_RATE"
  by (simp add: SPEED_INCREASE_RATE_def fl_pos)

section \<open>Properties of the input handler\<close>

lemma isUnit_cases:
  "isUnit d \<longleftrightarrow> d = \<lparr>vx = 1, vy = 0\<rparr> \<or> d = \<lparr>vx = -1, vy = 0\<rparr> \<or> d = \<lparr>vx = 0, vy = 1\<rparr>
     \<or> d = \<lparr>vx = 0, vy = -1\<rparr>"
  by (auto simp: isUnit_def directions_def)

lemma isUnit_not_self_reverse: "isUnit d \<Longrightarrow> \<not> isReverse d d"
  by (auto simp: isUnit_cases isReverse_def)

lemma vec_neq_iff: "(vx a \<noteq> vx b \<or> vy a \<noteq> vy b) \<longleftrightarrow> a \<noteq> (b::vec)"
  by (cases a, cases b) auto

lemma handleDirection_alt:
  "handleDirection d h =
     (if isReverse d (currentDirection h) then h
      else if d \<noteq> currentDirection h
        then h\<lparr>directionQueue := filter (\<lambda>dir. dir \<noteq> d) (directionQueue h) @ [d]\<rparr>
        else h\<lparr>directionQueue := filter (\<lambda>dir. dir \<noteq> d) (directionQueue h)\<rparr>)"
  unfolding handleDirection_def Let_def vec_neq_iff isReverse_def by (rule refl)

lemma handleDirection_inv:
  assumes "input_inv h" and "isUnit d"
  shows "input_inv (handleDirection d h)"
  using assms by (auto simp: handleDirection_alt input_inv_def list_all_iff)

lemma handleKeyDown_inv: "input_inv h \<Longrightarrow> input_inv (handleKeyDown k h)"
proof -
  assume inv: "input_inv h"
  have flags: "\<And>a b. input_inv (h\<lparr>pauseKeyDown := a, startKeyPressed := b\<rparr>)"
              "\<And>b. input_inv (h\<lparr>startKeyPressed := b\<rparr>)"
    using inv by (simp_all add: input_inv_def)
  show ?thesis
    unfolding handleKeyDown_def Let_def
    by (auto intro!: handleDirection_inv inv flags simp: isUnit_cases)
qed

lemma getNextDirection_inv: "input_inv h \<Longrightarrow> input_inv (snd (getNextDirection h))"
  by (auto simp: getNextDirection_def input_inv_def split: list.splits)

lemma input_step_inv: "input_inv h \<Longrightarrow> input_inv (input_step h e)"
proof (cases e)
  case (KeyDown k)
  assume "input_inv h"
  then show ?thesis using KeyDown by (simp add: handleKeyDown_inv)
next
  case (KeyUp k)
  assume "input_inv h"
  then show ?thesis using KeyUp by (simp add: handleKeyUp_def input_inv_def Let_def)
next
  case GetNextDirection
  assume "input_inv h"
  then show ?thesis using GetNextDirection by (simp add: getNextDirection_inv)
next
  case CheckStartPressed
  assume "input_inv h"
  then show ?thesis using CheckStartPressed by (simp add: checkStartPressed_def input_inv_def)
next
  case CheckPauseToggle
  assume "input_inv h"
  then show ?thesis using CheckPauseToggle by (simp add: checkPauseToggle_def input_inv_def)
qed

lemma foldl_input_step_inv: "input_inv h \<Longrightarrow> input_inv (foldl input_step h evs)"
  by (induction evs arbitrary: h) (simp_all add: input_step_inv)

lemma input_run_inv: "input_inv (input_run evs)"
  unfolding input_run_def
  by (rule foldl_input_step_inv) (simp add: input_inv_def new_InputHandler_def isUnit_cases)

lemma getNextDirection_fst: "fst (getNextDirection h) = currentDirection (snd (getNextDirection h))"
  by (simp add: getNextDirection_def split: list.splits)

lemma getNextDirection_no_reverse:
  "isUnit (currentDirection h) \<Longrightarrow> \<not> isReverse (fst (getNextDirection h)) (currentDirection h)"
  by (auto simp: getNextDirection_def isReverse_def isUnit_cases split: list.splits)

text \<open>
  C1. Whatever keys were pressed and released and however often the game polled the
  handler before, the heading that \<^verbatim>\<open>getNextDirection\<close> returns (which is the heading
  it leaves committed) is not the exact reverse of the heading that was committed when
  it was called.
\<close>

theorem C1_no_reversal_committed:
  "\<not> isReverse (fst (getNextDirection (input_run evs))) (currentDirection (input_run evs))
   \<and> currentDirection (snd (getNextDirection (input_run evs)))
       = fst (getNextDirection (input_run evs))"
  using getNextDirection_no_reverse [of "input_run evs"] input_run_inv [of evs]
        getNextDirection_fst [of "input_run evs"]
  by (simp add: input_inv_def)

theorem C1_witness:
  "\<not> isReverse
       (fst (getNextDirection (input_run [KeyDown ''ArrowUp'', KeyDown ''s'', GetNextDirection])))
       (currentDirection (input_run [KeyDown ''ArrowUp'', KeyDown ''s'', GetNextDirection]))
   \<and> directionQueue (input_run [KeyDown ''ArrowUp'', KeyDown ''s'', GetNextDirection])
       = [\<lparr>vx = 0, vy = 1\<rparr>]
   \<and> fst (getNextDirection (input_run [KeyDown ''ArrowUp'', KeyDown ''s'', GetNextDirection]))
       = \<lparr>vx = 0, vy = -1\<rparr>"
proof -
  have run: "directionQueue (input_run [KeyDown ''ArrowUp'', KeyDown ''s'', GetNextDirection])
               = [\<lparr>vx = 0, vy = 1\<rparr>]
             \<and> fst (getNextDirection (input_run [KeyDown ''ArrowUp'', KeyDown ''s'', GetNextDirection]))
               = \<lparr>vx = 0, vy = -1\<rparr>"
    by code_simp
  show ?thesis
    using C1_no_reversal_committed [of "[KeyDown ''ArrowUp'', KeyDown ''s'', GetNextDirection]"] run
    by blast
qed

lemma distinct_imp_distinct_adj: "distinct xs \<Longrightarrow> distinct_adj xs"
  by (induction xs rule: induct_list012) auto

lemma handleDirection_new_entries:
  "d \<in> set (directionQueue (handleDirection n h)) \<Longrightarrow>
     d \<in> set (directionQueue h) \<or> \<not> isReverse d (currentDirection h)"
  by (auto simp: handleDirection_def isReverse_def Let_def split: if_splits)

lemma handleKeyDown_new_entries:
  "d \<in> set (directionQueue (handleKeyDown k h)) \<Longrightarrow>
     d \<in> set (directionQueue h) \<or> \<not> isReverse d (currentDirection h)"
  unfolding handleKeyDown_def Let_def
  by (auto dest: handleDirection_new_entries split: if_splits)

text \<open>
  C4, as stated, fails. With the heading right committed, the keys up and down are both
  accepted (neither is the reverse of right); the next tick commits up, and the queue then
  holds down, the direct reverse of the committed heading.
\<close>

theorem C4_counterexample:
  "directionQueue (input_run [KeyDown ''ArrowUp'', KeyDown ''ArrowDown'', GetNextDirection])
     = [\<lparr>vx = 0, vy = 1\<rparr>]
   \<and> currentDirection (input_run [KeyDown ''ArrowUp'', KeyDown ''ArrowDown'', GetNextDirection])
     = \<lparr>vx = 0, vy = -1\<rparr>
   \<and> isReverse \<lparr>vx = 0, vy = 1\<rparr> \<lparr>vx = 0, vy = -1\<rparr>"
  by code_simp

text \<open>
  C4, amended. In every reachable state of the handler the queued headings are pairwise
  distinct, so no two consecutive entries are equal; and a key press never adds the
  reverse of the heading that is committed at the time of the press: every entry of the
  queue after \<^verbatim>\<open>handleKeyDown\<close> was queued before or is not the reverse of the
  committed heading. (A queued entry can become the reverse of the committed heading
  only when \<^verbatim>\<open>getNextDirection\<close> changes the heading afterwards.)
\<close>

theorem C4_queue_distinct_submit_filters_reverse:
  "distinct (directionQueue (input_run evs))
   \<and> distinct_adj (directionQueue (input_run evs))
   \<and> (\<forall>d \<in> set (directionQueue (handleKeyDown k (input_run evs))).
         d \<in> set (directionQueue (input_run evs)) \<or> \<not> isReverse d (currentDirection (input_run evs)))"
  using input_run_inv [of evs] handleKeyDown_new_entries [of _ k "input_run evs"]
  by (auto simp: input_inv_def distinct_imp_distinct_adj)

theorem C4_witness:
  "\<lparr>vx = 0, vy = 1\<rparr> \<in> set (directionQueue (handleKeyDown ''ArrowDown'' (input_run [KeyDown ''ArrowUp''])))
   \<and> \<lparr>vx = 0, vy = 1\<rparr> \<notin> set (directionQueue (input_run [KeyDown ''ArrowUp'']))
   \<and> \<not> isReverse \<lparr>vx = 0, vy = 1\<rparr> (currentDirection (input_run [KeyDown ''ArrowUp'']))"
proof -
  have a: "\<lparr>vx = 0, vy = 1\<rparr>
             \<in> set (directionQueue (handleKeyDown ''ArrowDown'' (input_run [KeyDown ''ArrowUp''])))"
    by code_simp
  have b: "\<lparr>vx = 0, vy = 1\<rparr> \<notin> set (directionQueue (input_run [KeyDown ''ArrowUp'']))"
    by code_simp
  show ?thesis
    using C4_queue_distinct_submit_filters_reverse [of "[KeyDown ''ArrowUp'']" "''ArrowDown''"] a b
    by blast
qed


section \<open>Properties of the snakes\<close>

text \<open>
  C5. For a snake with at least one segment and any heading, \<^verbatim>\<open>update\<close> puts the old
  head translated by the heading times the cell size in front and drops the last
  segment, so the number of segments stays; \<^verbatim>\<open>grow\<close> appends a copy of the last
  segment, so the number grows by one. The player of a new session (six segments from
  \<open>(510, 330)\<close> leftwards, heading right, no key pressed) has after one step its head at
  \<open>(530, 330)\<close>, six segments, and no segment at its old tail cell \<open>(410, 330)\<close>.
\<close>

theorem C5_update_translates_grow_appends:
  "segments s = head # rest \<Longrightarrow>
     map_option segments (Snake_update dir s) =
       Some (\<lparr>vx = vx head + vx dir * GRID_SIZE, vy = vy head + vy dir * GRID_SIZE\<rparr>
             # butlast (segments s))
     \<and> map_option (length \<circ> segments) (Snake_update dir s) = Some (length (segments s))
     \<and> map_option segments (Snake_grow s) = Some (segments s @ [last (segments s)])
     \<and> map_option (length \<circ> segments) (Snake_grow s) = Some (length (segments s) + 1)
     \<and> segments (new_Snake 510 330 True 6) =
          [\<lparr>vx = 510, vy = 330\<rparr>, \<lparr>vx = 490, vy = 330\<rparr>, \<lparr>vx = 470, vy = 330\<rparr>,
           \<lparr>vx = 450, vy = 330\<rparr>, \<lparr>vx = 430, vy = 330\<rparr>, \<lparr>vx = 410, vy = 330\<rparr>]
     \<and> map_option segments
           (Snake_update (fst (getNextDirection new_InputHandler)) (new_Snake 510 330 True 6)) =
         Some [\<lparr>vx = 530, vy = 330\<rparr>, \<lparr>vx = 510, vy = 330\<rparr>, \<lparr>vx = 490, vy = 330\<rparr>,
               \<lparr>vx = 470, vy = 330\<rparr>, \<lparr>vx = 450, vy = 330\<rparr>, \<lparr>vx = 430, vy = 330\<rparr>]"
proof -
  assume seg: "segments s = head # rest"
  have a: "map_option segments (Snake_update dir s) =
             Some (\<lparr>vx = vx head + vx dir * GRID_SIZE, vy = vy head + vy dir * GRID_SIZE\<rparr>
                   # butlast (segments s))"
    using seg by (simp add: Snake_update_def Let_def)
  have b: "map_option (length \<circ> segments) (Snake_update dir s) = Some (length (segments s))"
    using seg by (simp add: Snake_update_def Let_def)
  have c: "map_option segments (Snake_grow s) = Some (segments s @ [last (segments s)])"
    using seg by (simp add: Snake_grow_def Let_def)
  have d: "map_option (length \<circ> segments) (Snake_grow s) = Some (length (segments s) + 1)"
    using seg by (simp add: Snake_grow_def Let_def)
  have e: "segments (new_Snake 510 330 True 6) =
          [\<lparr>vx = 510, vy = 330\<rparr>, \<lparr>vx = 490, vy = 330\<rparr>, \<lparr>vx = 470, vy = 330\<rparr>,
           \<lparr>vx = 450, vy = 330\<rparr>, \<lparr>vx = 430, vy = 330\<rparr>, \<lparr>vx = 410, vy = 330\<rparr>]"
    by code_simp
  have f: "map_option segments
           (Snake_update (fst (getNextDirection new_InputHandler)) (new_Snake 510 330 True 6)) =
         Some [\<lparr>vx = 530, vy = 330\<rparr>, \<lparr>vx = 510, vy = 330\<rparr>, \<lparr>vx = 490, vy = 330\<rparr>,
               \<lparr>vx = 470, vy = 330\<rparr>, \<lparr>vx = 450, vy = 330\<rparr>, \<lparr>vx = 430, vy = 330\<rparr>]"
    by code_simp
  show ?thesis using a b c d e f by blast
qed

theorem C5_witness:
  "segments \<lparr>segments = [\<lparr>vx = 30, vy = 10\<rparr>, \<lparr>vx = 10, vy = 10\<rparr>], isPlayer = False\<rparr>
     = \<lparr>vx = 30, vy = 10\<rparr> # [\<lparr>vx = 10, vy = 10\<rparr>]
   \<and> map_option segments
        (Snake_update \<lparr>vx = 0, vy = 1\<rparr>
           \<lparr>segments = [\<lparr>vx = 30, vy = 10\<rparr>, \<lparr>vx = 10, vy = 10\<rparr>], isPlayer = False\<rparr>)
       = Some [\<lparr>vx = 30, vy = 30\<rparr>, \<lparr>vx = 30, vy = 10\<rparr>]
   \<and> map_option segments
        (Snake_grow \<lparr>segments = [\<lparr>vx = 30, vy = 10\<rparr>, \<lparr>vx = 10, vy = 10\<rparr>], isPlayer = False\<rparr>)
       = Some [\<lparr>vx = 30, vy = 10\<rparr>, \<lparr>vx = 10, vy = 10\<rparr>, \<lparr>vx = 10, vy = 10\<rparr>]"
proof -
  have seg: "segments \<lparr>segments = [\<lparr>vx = 30, vy = 10\<rparr>, \<lparr>vx = 10, vy = 10\<rparr>], isPlayer = False\<rparr>
               = \<lparr>vx = 30, vy = 10\<rparr> # [\<lparr>vx = 10, vy = 10\<rparr>]"
    by simp
  show ?thesis
    using C5_update_translates_grow_appends [OF seg, of "\<lparr>vx = 0, vy = 1\<rparr>"]
    by (simp add: GRID_SIZE_def)
qed

lemma Math_random_unit:
  assumes "unit_draws r" and "Math_random r = (u, r1)"
  shows "0 \<le> u" and "u < 1" and "unit_draws r1"
  using assms by (auto simp: unit_draws_def Math_random_def)

lemma floor_scaled_draw:
  fixes u :: rat
  assumes "0 \<le> u" and "u < 1" and "0 < n"
  shows "0 \<le> \<lfloor>u * of_nat n\<rfloor> \<and> \<lfloor>u * of_nat n\<rfloor> < int n"
proof -
  have "0 \<le> u * of_nat n" using assms by simp
  moreover have "u * of_nat n < of_nat n" using assms by simp
  ultimately show ?thesis by (simp add: floor_less_iff)
qed

lemma validDirections_nonempty:
  "filter (\<lambda>dir. \<not> (vx dir = - vx d \<and> vy dir = - vy d)) directions \<noteq> []"
  by (auto simp: directions_def)

lemma chooseDirection_ok:
  assumes "unit_draws r"
  shows "\<exists>s' r'. chooseDirection r s = Some (s', r') \<and> unit_draws r'
           \<and> isUnit (nextDirection s') \<and> \<not> isReverse (nextDirection s') (direction s)
           \<and> segments s' = segments s \<and> direction s' = direction s"
proof -
  let ?vd = "filter (\<lambda>dir. \<not> (vx dir = - vx (direction s) \<and> vy dir = - vy (direction s))) directions"
  obtain u r1 where mr: "Math_random r = (u, r1)" by (cases "Math_random r")
  have u: "0 \<le> u" "u < 1" and r1: "unit_draws r1"
    using Math_random_unit [OF assms mr] by auto
  have len: "0 < length ?vd" using validDirections_nonempty [of "direction s"] by simp
  let ?k = "\<lfloor>u * of_nat (length ?vd)\<rfloor>"
  have k: "0 \<le> ?k" "?k < int (length ?vd)" using floor_scaled_draw [OF u len] by auto
  then have "nat ?k < length ?vd" by linarith
  then have mem: "?vd ! nat ?k \<in> set ?vd" by (rule nth_mem)
  then have "isUnit (?vd ! nat ?k)" "\<not> isReverse (?vd ! nat ?k) (direction s)"
    by (auto simp: isUnit_def isReverse_def)
  then show ?thesis
    using mr k r1 by (simp add: chooseDirection_def Let_def)
qed

lemma AISnake_updateAI_ok:
  assumes "unit_draws r" and "ai_inv s"
  shows "\<exists>s' r'. AISnake_updateAI w h r s = Some (s', r') \<and> unit_draws r' \<and> ai_inv s'
           \<and> segments s' = segments s \<and> direction s' = direction s
           \<and> (nextDirection s' = nextDirection s \<or> \<not> isReverse (nextDirection s') (direction s))"
proof (cases "aiTimer s + 1 \<ge> aiChangeInterval s")
  case False
  then show ?thesis using assms by (simp add: AISnake_updateAI_def Let_def ai_inv_def)
next
  case True
  obtain u r1 where mr: "Math_random r = (u, r1)" by (cases "Math_random r")
  have r1: "unit_draws r1" using Math_random_unit [OF assms(1) mr] by auto
  obtain p r2 where mp: "Math_random r1 = (p, r2)" by (cases "Math_random r1")
  have r2: "unit_draws r2" using Math_random_unit [OF r1 mp] by auto
  let ?s2 = "s\<lparr>aiTimer := 0, aiChangeInterval := 4 + \<lfloor>u * 4\<rfloor>\<rparr>"
  obtain head rest where seg: "segments s = head # rest"
    using assms(2) by (cases "segments s") (auto simp: ai_inv_def)
  from chooseDirection_ok [OF r1, of ?s2] obtain a ra where
    c1: "chooseDirection r1 ?s2 = Some (a, ra)" "unit_draws ra" "isUnit (nextDirection a)"
        "\<not> isReverse (nextDirection a) (direction s)" "segments a = segments s" "direction a = direction s"
    by auto
  from chooseDirection_ok [OF r2, of ?s2] obtain b rb where
    c2: "chooseDirection r2 ?s2 = Some (b, rb)" "unit_draws rb" "isUnit (nextDirection b)"
        "\<not> isReverse (nextDirection b) (direction s)" "segments b = segments s" "direction b = direction s"
    by auto
  show ?thesis
    using True mr mp seg c1 c2 r2 assms(2)
    by (simp add: AISnake_updateAI_def Let_def ai_inv_def)
qed

lemma AISnake_update_ok:
  assumes "ai_inv s"
  shows "\<exists>s'. AISnake_update s = Some s' \<and> ai_inv s'
           \<and> direction s' = (if isReverse (nextDirection s) (direction s) then direction s
                              else nextDirection s)
           \<and> nextDirection s' = nextDirection s"
proof -
  obtain head rest where seg: "segments s = head # rest"
    using assms by (cases "segments s") (auto simp: ai_inv_def)
  show ?thesis
    using assms seg
    by (auto simp: AISnake_update_def Snake_update_def Let_def ai_inv_def isReverse_def)
qed

lemma unit_turn:
  assumes "isUnit a" and "isUnit b" and "\<not> isReverse b a"
  shows "b = a \<or> perpendicular b a"
  using assms by (auto simp: isUnit_cases isReverse_def perpendicular_def)

text \<open>
  C9. \<^verbatim>\<open>AISnake.update\<close> on an autonomous snake (with segments and with unit headings,
  as every autonomous snake of a session has) returns, and the heading it commits is
  never the exact reverse of the heading held before the call: it is the pending heading
  exactly when that is not the reverse, and the old heading otherwise, so the change is a
  right-angle turn or none.
\<close>

theorem C9_ai_never_reverses:
  "ai_inv s \<Longrightarrow>
     (\<exists>s'. AISnake_update s = Some s'
        \<and> \<not> isReverse (direction s') (direction s)
        \<and> (direction s' = direction s \<or> perpendicular (direction s') (direction s))
        \<and> (direction s' = nextDirection s \<longleftrightarrow>
             \<not> isReverse (nextDirection s) (direction s)))"
proof -
  assume inv: "ai_inv s"
  then obtain s' where s': "AISnake_update s = Some s'"
      "direction s' = (if isReverse (nextDirection s) (direction s) then direction s
                       else nextDirection s)"
    using AISnake_update_ok by blast
  have u: "isUnit (direction s)" "isUnit (nextDirection s)" using inv by (auto simp: ai_inv_def)
  have a: "\<not> isReverse (direction s') (direction s)"
    using s'(2) isUnit_not_self_reverse [OF u(1)] by (simp split: if_splits)
  have "isUnit (direction s')" using s'(2) u by (simp split: if_splits)
  then have b: "direction s' = direction s \<or> perpendicular (direction s') (direction s)"
    using unit_turn [OF u(1) _ a] by blast
  have c: "direction s' = nextDirection s \<longleftrightarrow> \<not> isReverse (nextDirection s) (direction s)"
    using s'(2) isUnit_not_self_reverse [OF u(1)] by auto
  show ?thesis using s'(1) a b c by blast
qed

lemma wallBounce_ok:
  assumes "ai_inv s"
  shows "\<exists>s'. wallBounce s = Some s' \<and> ai_inv s' \<and> segments s' = segments s
           \<and> direction s' = direction s
           \<and> (checkWallCollision CANVAS_WIDTH CANVAS_HEIGHT s = Some True \<longrightarrow>
                isReverse (nextDirection s') (direction s))
           \<and> (checkWallCollision CANVAS_WIDTH CANVAS_HEIGHT s = Some False \<longrightarrow> s' = s)"
proof -
  obtain head rest where seg: "segments s = head # rest"
    using assms by (cases "segments s") (auto simp: ai_inv_def)
  have "isUnit \<lparr>vx = - vx (direction s), vy = - vy (direction s)\<rparr>"
    using assms by (auto simp: ai_inv_def isUnit_cases)
  then show ?thesis
    using assms seg
    by (auto simp: wallBounce_def checkWallCollision_def ai_inv_def isReverse_def)
qed

theorem C9_witness:
  "ai_inv \<lparr>segments = [\<lparr>vx = 990, vy = 150\<rparr>], isPlayer = False, direction = \<lparr>vx = 1, vy = 0\<rparr>,
           nextDirection = \<lparr>vx = -1, vy = 0\<rparr>, aiTimer = 0, aiChangeInterval = 4\<rparr>
   \<and> map_option direction
        (AISnake_update
           \<lparr>segments = [\<lparr>vx = 990, vy = 150\<rparr>], isPlayer = False, direction = \<lparr>vx = 1, vy = 0\<rparr>,
            nextDirection = \<lparr>vx = -1, vy = 0\<rparr>, aiTimer = 0, aiChangeInterval = 4\<rparr>)
       = Some \<lparr>vx = 1, vy = 0\<rparr>
   \<and> \<not> isReverse \<lparr>vx = 1, vy = 0\<rparr> \<lparr>vx = 1, vy = 0\<rparr>"
proof -
  let ?s = "\<lparr>segments = [\<lparr>vx = 990, vy = 150\<rparr>], isPlayer = False, direction = \<lparr>vx = 1, vy = 0\<rparr>,
             nextDirection = \<lparr>vx = -1, vy = 0\<rparr>, aiTimer = 0, aiChangeInterval = 4\<rparr>"
  have inv: "ai_inv ?s" by (simp add: ai_inv_def isUnit_cases)
  have run: "map_option direction (AISnake_update ?s) = Some \<lparr>vx = 1, vy = 0\<rparr>" by code_simp
  from C9_ai_never_reverses [OF inv] obtain s' where
    "AISnake_update ?s = Some s'" "\<not> isReverse (direction s') (direction ?s)" by blast
  with run have "\<not> isReverse \<lparr>vx = 1, vy = 0\<rparr> \<lparr>vx = 1, vy = 0\<rparr>" by simp
  with inv run show ?thesis by blast
qed


section \<open>Properties of the food placement\<close>













section \<open>Properties of \<^verbatim>\<open>Game.update\<close>\<close>

lemma pauseStep_frame:
  assumes "pauseStep c g = (g1, c1)"
  shows "isGameOver g1 = isGameOver g" "isWaitingToStart g1 = isWaitingToStart g"
    "playerSnake g1 = playerSnake g" "aiSnakes g1 = aiSnakes g" "score g1 = score g"
    "food g1 = food g" "ui g1 = ui g" "userSpeedMultiplier g1 = userSpeedMultiplier g"
    "directionQueue (inputHandler g1) = directionQueue (inputHandler g)"
    "currentDirection (inputHandler g1) = currentDirection (inputHandler g)"
  using assms
  by (auto simp: pauseStep_def checkPauseToggle_def Date_now_def Let_def split: if_splits prod.splits)

lemma moveStep_Some:
  assumes "moveStep c r g = Some (g2, c2, r2)"
  shows "isGracePeriod g2 = (c 0 - gameStartTime g < GRACE_PERIOD)"
    and "baseSpeed g2 = min (speedMultiplier (score g)) MAX_SPEED_MULTIPLIER"
    and "currentSpeed g2 = fl (baseSpeed g2 * userSpeedMultiplier g2)"
    and "moveInterval g2 = fl (BASE_MOVE_INTERVAL / fl (baseSpeed g2 * userSpeedMultiplier g2))"
    and "userSpeedMultiplier g2 = userSpeedMultiplier g"
    and "score g2 = score g" and "gameStartTime g2 = gameStartTime g"
    and "isGameOver g2 = isGameOver g" and "isPaused g2 = isPaused g"
    and "isWaitingToStart g2 = isWaitingToStart g"
    and "food g2 = food g" and "ui g2 = ui g"
    and "playerDirection g2 = fst (getNextDirection (inputHandler g))"
    and "inputHandler g2 = snd (getNextDirection (inputHandler g))"
    and "Snake_update (fst (getNextDirection (inputHandler g))) (playerSnake g) = Some (playerSnake g2)"
    and "updateAISnakes r (aiSnakes g) = Some (aiSnakes g2, r2)"
    and "c2 = (\<lambda>i. c (Suc i))"
  using assms
  by (auto simp: moveStep_def updateSpeed_def Date_now_def Let_def
           split: prod.splits option.splits)


lemma AISnake_updateAI_returns:
  assumes "unit_draws r" and "segments s \<noteq> []"
  shows "\<exists>s' r'. AISnake_updateAI w h r s = Some (s', r') \<and> unit_draws r'
           \<and> segments s' = segments s \<and> direction s' = direction s
           \<and> (nextDirection s' = nextDirection s
                \<or> isUnit (nextDirection s') \<and> \<not> isReverse (nextDirection s') (direction s))"
proof (cases "aiTimer s + 1 \<ge> aiChangeInterval s")
  case False
  then show ?thesis using assms by (simp add: AISnake_updateAI_def Let_def)
next
  case True
  obtain u r1 where mr: "Math_random r = (u, r1)" by (cases "Math_random r")
  have r1: "unit_draws r1" using Math_random_unit [OF assms(1) mr] by auto
  obtain p r2 where mp: "Math_random r1 = (p, r2)" by (cases "Math_random r1")
  have r2: "unit_draws r2" using Math_random_unit [OF r1 mp] by auto
  let ?s2 = "s\<lparr>aiTimer := 0, aiChangeInterval := 4 + \<lfloor>u * 4\<rfloor>\<rparr>"
  obtain head rest where seg: "segments s = head # rest"
    using assms(2) by (cases "segments s") auto
  from chooseDirection_ok [OF r1, of ?s2] obtain a ra where
    c1: "chooseDirection r1 ?s2 = Some (a, ra)" "unit_draws ra" "isUnit (nextDirection a)"
        "\<not> isReverse (nextDirection a) (direction s)" "segments a = segments s" "direction a = direction s"
    by auto
  from chooseDirection_ok [OF r2, of ?s2] obtain b rb where
    c2: "chooseDirection r2 ?s2 = Some (b, rb)" "unit_draws rb" "isUnit (nextDirection b)"
        "\<not> isReverse (nextDirection b) (direction s)" "segments b = segments s" "direction b = direction s"
    by auto
  show ?thesis
    using True mr mp seg c1 c2 r2
    by (simp add: AISnake_updateAI_def Let_def)
qed

lemma AISnake_update_returns:
  assumes "segments s \<noteq> []"
  shows "\<exists>s'. AISnake_update s = Some s' \<and> segments s' \<noteq> []
           \<and> length (segments s') = length (segments s)
           \<and> direction s' = (if isReverse (nextDirection s) (direction s) then direction s
                              else nextDirection s)
           \<and> nextDirection s' = nextDirection s"
proof -
  obtain head rest where seg: "segments s = head # rest"
    using assms by (cases "segments s") auto
  show ?thesis
    using seg by (auto simp: AISnake_update_def Snake_update_def Let_def isReverse_def)
qed

lemma updateAISnakes_returns:
  assumes "list_all (\<lambda>s. segments s \<noteq> []) ss" and "unit_draws r"
  shows "\<exists>ss' r'. updateAISnakes r ss = Some (ss', r') \<and> unit_draws r'
           \<and> list_all (\<lambda>s. segments s \<noteq> []) ss' \<and> length ss' = length ss"
  using assms
proof (induction ss arbitrary: r)
  case Nil
  then show ?case by simp
next
  case (Cons s ss)
  then have s: "segments s \<noteq> []" and ss: "list_all (\<lambda>s. segments s \<noteq> []) ss" by auto
  from AISnake_updateAI_returns [OF Cons.prems(2) s, of CANVAS_WIDTH CANVAS_HEIGHT]
  obtain s1 r1 where s1: "AISnake_updateAI CANVAS_WIDTH CANVAS_HEIGHT r s = Some (s1, r1)"
      "unit_draws r1" "segments s1 = segments s"
    by blast
  then have "segments s1 \<noteq> []" using s by simp
  from AISnake_update_returns [OF this] obtain s2 where
    s2: "AISnake_update s1 = Some s2" "segments s2 \<noteq> []" by blast
  from Cons.IH [OF ss s1(2)] obtain ss' r' where
    rest: "updateAISnakes r1 ss = Some (ss', r')" "unit_draws r'"
          "list_all (\<lambda>s. segments s \<noteq> []) ss'" "length ss' = length ss"
    by blast
  show ?case using s1(1) s2 rest by simp
qed

lemma moveStep_returns:
  assumes "snakes_present g" and "unit_draws r"
  shows "\<exists>g2 c2 r2. moveStep c r g = Some (g2, c2, r2) \<and> snakes_present g2 \<and> unit_draws r2"
proof -
  from assms obtain ss' r' where
    ai: "updateAISnakes r (aiSnakes g) = Some (ss', r')" "unit_draws r'"
        "list_all (\<lambda>s. segments s \<noteq> []) ss'"
    using updateAISnakes_returns [of "aiSnakes g" r] by (auto simp: snakes_present_def)
  obtain head rest where seg: "segments (playerSnake g) = head # rest"
    using assms(1) by (cases "segments (playerSnake g)") (auto simp: snakes_present_def)
  show ?thesis
    using ai seg
    by (auto simp: moveStep_def updateSpeed_def Date_now_def Let_def Snake_update_def
          snakes_present_def split: prod.splits)
qed

lemma collidesWithAny_eq:
  "segments p = head # rest \<Longrightarrow>
     snd (collidesWithAny p i ais) = Some (\<exists>a \<in> set ais. hitsSegments head (segments a))"
proof (induction ais arbitrary: i)
  case Nil
  then show ?case by simp
next
  case (Cons a ais)
  have ih: "snd (collidesWithAny p (Suc i) ais)
              = Some (\<exists>a \<in> set ais. hitsSegments head (segments a))"
    by (rule Cons.IH [OF Cons.prems])
  show ?case
    using ih Cons.prems by (auto simp: checkCollisionWithSnake_def split: prod.splits)
qed

lemma fatalCollision_grace: "isGracePeriod g \<Longrightarrow> fatalCollision g = ([], Some False)"
  by (simp add: fatalCollision_def)

lemma fatalCollision_eq:
  assumes "\<not> isGracePeriod g" and "segments (playerSnake g) = head # rest"
  shows "snd (fatalCollision g) =
           Some (checkWallCollision CANVAS_WIDTH CANVAS_HEIGHT (playerSnake g) = Some True
                 \<or> checkSelfCollision (playerSnake g)
                 \<or> (\<exists>a \<in> set (aiSnakes g). hitsSegments head (segments a)))"
  using assms collidesWithAny_eq [OF assms(2), of 0 "aiSnakes g"]
  by (auto simp: fatalCollision_def checkWallCollision_def split: prod.splits)

lemma respawn_loop_unit_draws:
  "unit_draws r \<Longrightarrow> unit_draws (snd (respawn_loop w h snakes valid n r f0))"
proof (induction w h snakes valid n r f0 rule: respawn_loop.induct)
  case (1 w h snakes valid n r f0)
  show ?case
  proof (cases "\<not> valid \<and> n < 100")
    case False
    then show ?thesis using 1 by (subst respawn_loop.simps) auto
  next
    case True
    obtain u r1 where a: "Math_random r = (u, r1)" by (cases "Math_random r")
    obtain v r2 where b: "Math_random r1 = (v, r2)" by (cases "Math_random r1")
    have "unit_draws r2"
      using Math_random_unit(3) [OF Math_random_unit(3) [OF "1.prems" a] b] .
    then show ?thesis
      using True a b "1.IH" [OF True a [symmetric] refl refl b [symmetric] refl refl]
      by (subst respawn_loop.simps) (simp add: Let_def)
  qed
qed

lemma Food_respawn_unit_draws:
  "unit_draws r \<Longrightarrow> unit_draws (snd (Food_respawn w h snakes r f0))"
  by (simp add: Food_respawn_def respawn_loop_unit_draws)

lemma foodStep_miss:
  assumes "checkFoodCollision (playerSnake g) (food g) = Some False"
  shows "foodStep r g = Some (g, r)"
  using assms by (simp add: foodStep_def)

lemma foodStep_hit:
  assumes "checkFoodCollision (playerSnake g) (food g) = Some True"
  shows "\<exists>p. Snake_grow (playerSnake g) = Some p \<and>
           foodStep r g =
             Some ((updateUI (g\<lparr>playerSnake := p, score := score g + 10\<rparr>))
                     \<lparr>food := fst (Food_respawn CANVAS_WIDTH CANVAS_HEIGHT
                                 (segments p # map segments (aiSnakes g)) r (food g))\<rparr>,
                   snd (Food_respawn CANVAS_WIDTH CANVAS_HEIGHT
                          (segments p # map segments (aiSnakes g)) r (food g)))"
proof -
  from assms obtain head rest where seg: "segments (playerSnake g) = head # rest"
    by (cases "segments (playerSnake g)") (auto simp: checkFoodCollision_def)
  then obtain p where p: "Snake_grow (playerSnake g) = Some p"
    by (simp add: Snake_grow_def Let_def)
  show ?thesis
    using assms p
    by (simp add: foodStep_def updateUI_def Let_def split: prod.splits)
qed

lemma foodStep_returns:
  assumes "segments (playerSnake g) \<noteq> []"
  shows "\<exists>g3 r3. foodStep r g = Some (g3, r3)
           \<and> aiSnakes g3 = aiSnakes g \<and> isGameOver g3 = isGameOver g
           \<and> gameStartTime g3 = gameStartTime g \<and> isGracePeriod g3 = isGracePeriod g
           \<and> segments (playerSnake g3) \<noteq> []
           \<and> (unit_draws r \<longrightarrow> unit_draws r3)
           \<and> (if checkFoodCollision (playerSnake g) (food g) = Some True
               then Snake_grow (playerSnake g) = Some (playerSnake g3)
                    \<and> score g3 = score g + 10
                    \<and> food g3 = fst (Food_respawn CANVAS_WIDTH CANVAS_HEIGHT
                         (segments (playerSnake g3) # map segments (aiSnakes g)) r (food g))
               else g3 = g \<and> r3 = r)"
proof -
  obtain head rest where seg: "segments (playerSnake g) = head # rest"
    using assms by (cases "segments (playerSnake g)") auto
  show ?thesis
  proof (cases "checkFoodCollision (playerSnake g) (food g) = Some True")
    case True
    from foodStep_hit [OF True, of r] obtain p where
      p: "Snake_grow (playerSnake g) = Some p"
         "foodStep r g =
             Some ((updateUI (g\<lparr>playerSnake := p, score := score g + 10\<rparr>))
                     \<lparr>food := fst (Food_respawn CANVAS_WIDTH CANVAS_HEIGHT
                                 (segments p # map segments (aiSnakes g)) r (food g))\<rparr>,
                   snd (Food_respawn CANVAS_WIDTH CANVAS_HEIGHT
                          (segments p # map segments (aiSnakes g)) r (food g)))"
      by blast
    have "segments p \<noteq> []" using p(1) seg by (auto simp: Snake_grow_def Let_def)
    then show ?thesis
      using True p Food_respawn_unit_draws [of r]
      by (simp add: updateUI_def)
  next
    case False
    then have miss: "checkFoodCollision (playerSnake g) (food g) = Some False"
      using seg by (simp add: checkFoodCollision_def)
    show ?thesis using False foodStep_miss [OF miss, of r] assms by simp
  qed
qed

lemma wallBounce_returns:
  assumes "segments s \<noteq> []"
  shows "\<exists>s'. wallBounce s = Some s' \<and> segments s' = segments s \<and> direction s' = direction s"
proof -
  obtain head rest where seg: "segments s = head # rest"
    using assms by (cases "segments s") auto
  show ?thesis using seg by (auto simp: wallBounce_def checkWallCollision_def)
qed

lemma wallBounces_returns:
  assumes "list_all (\<lambda>s. segments s \<noteq> []) ss"
  shows "\<exists>ss'. wallBounces ss = Some ss' \<and> map segments ss' = map segments ss
           \<and> map direction ss' = map direction ss"
  using assms
proof (induction ss)
  case Nil
  then show ?case by simp
next
  case (Cons s ss)
  then have "segments s \<noteq> []" and ss: "list_all (\<lambda>s. segments s \<noteq> []) ss" by auto
  from wallBounce_returns [OF this(1)] obtain s' where
    s': "wallBounce s = Some s'" "segments s' = segments s" "direction s' = direction s" by blast
  from Cons.IH [OF ss] obtain ss' where
    "wallBounces ss = Some ss'" "map segments ss' = map segments ss"
    "map direction ss' = map direction ss" by blast
  with s' show ?case by simp
qed


lemma Snake_update_Some_nonempty:
  assumes "Snake_update d s = Some p"
  shows "segments p \<noteq> []"
proof -
  have "map_option segments (Snake_update d s) = Some (segments p)" using assms by simp
  then show ?thesis
    by (cases "segments s") (auto simp: Snake_update_def Let_def)
qed

lemma updateAISnakes_Some_present:
  "updateAISnakes r ss = Some (ss', r') \<Longrightarrow> list_all (\<lambda>s. segments s \<noteq> []) ss'"
proof (induction ss arbitrary: r ss' r')
  case Nil
  then show ?case by simp
next
  case (Cons s ss)
  from Cons.prems obtain s1 r1 s2 rest where
    parts: "AISnake_updateAI CANVAS_WIDTH CANVAS_HEIGHT r s = Some (s1, r1)"
           "AISnake_update s1 = Some s2" "updateAISnakes r1 ss = Some (rest, r')" "ss' = s2 # rest"
    by (auto split: option.splits prod.splits)
  have "segments s2 \<noteq> []"
    using parts(2) Snake_update_Some_nonempty by (auto simp: AISnake_update_def Let_def)
  then show ?case using Cons.IH [OF parts(3)] parts(4) by simp
qed

lemma moveStep_Some_present:
  assumes "moveStep c r g = Some (g2, c2, r2)"
  shows "snakes_present g2"
  using Snake_update_Some_nonempty [OF moveStep_Some(15) [OF assms]]
        updateAISnakes_Some_present [OF moveStep_Some(16) [OF assms]]
  by (simp add: snakes_present_def)

lemma Game_update_running:
  assumes "\<not> isGameOver g" and "\<not> isWaitingToStart g" and "pauseStep c g = (g1, c1)"
    and "\<not> isPaused g1" and "moveStep c1 r g1 = Some (g2, c2, r2)"
  shows "Game_update c r g =
           (case snd (fatalCollision g2) of
              None \<Rightarrow> None
            | Some fatal \<Rightarrow>
                if fatal then Some (gameOver g2, c2, r2)
                else (case foodStep r2 g2 of
                        None \<Rightarrow> None
                      | Some (g3, r3) \<Rightarrow>
                          (case wallBounces (aiSnakes g3) of
                             None \<Rightarrow> None
                           | Some snakes \<Rightarrow> Some (g3\<lparr>aiSnakes := snakes\<rparr>, c2, r3))))"
  using assms by (simp add: Game_update_def)

lemma Game_update_not_fatal:
  assumes run: "\<not> isGameOver g" "\<not> isWaitingToStart g" "pauseStep c g = (g1, c1)" "\<not> isPaused g1"
    and move: "moveStep c1 r g1 = Some (g2, c2, r2)"
    and safe: "snd (fatalCollision g2) = Some False"
  shows "\<exists>g3 r3 snakes.
           foodStep r2 g2 = Some (g3, r3) \<and> wallBounces (aiSnakes g2) = Some snakes
           \<and> Game_update c r g = Some (g3\<lparr>aiSnakes := snakes\<rparr>, c2, r3)
           \<and> \<not> isGameOver g3
           \<and> gameStartTime g3 = gameStartTime g2 \<and> isGracePeriod g3 = isGracePeriod g2
           \<and> segments (playerSnake g3) \<noteq> []
           \<and> (unit_draws r2 \<longrightarrow> unit_draws r3)
           \<and> map segments snakes = map segments (aiSnakes g2)
           \<and> map direction snakes = map direction (aiSnakes g2)
           \<and> (if checkFoodCollision (playerSnake g2) (food g2) = Some True
               then Snake_grow (playerSnake g2) = Some (playerSnake g3)
                    \<and> score g3 = score g2 + 10
                    \<and> food g3 = fst (Food_respawn CANVAS_WIDTH CANVAS_HEIGHT
                         (segments (playerSnake g3) # map segments (aiSnakes g2)) r2 (food g2))
               else g3 = g2 \<and> r3 = r2)"
proof -
  have present: "snakes_present g2" using moveStep_Some_present [OF move] .
  then have p: "segments (playerSnake g2) \<noteq> []"
    and a: "list_all (\<lambda>s. segments s \<noteq> []) (aiSnakes g2)"
    by (auto simp: snakes_present_def)
  from foodStep_returns [OF p, of r2] obtain g3 r3 where food:
    "foodStep r2 g2 = Some (g3, r3)" "aiSnakes g3 = aiSnakes g2" "isGameOver g3 = isGameOver g2"
    "gameStartTime g3 = gameStartTime g2" "isGracePeriod g3 = isGracePeriod g2"
    "segments (playerSnake g3) \<noteq> []" "unit_draws r2 \<longrightarrow> unit_draws r3"
    "if checkFoodCollision (playerSnake g2) (food g2) = Some True
     then Snake_grow (playerSnake g2) = Some (playerSnake g3)
          \<and> score g3 = score g2 + 10
          \<and> food g3 = fst (Food_respawn CANVAS_WIDTH CANVAS_HEIGHT
               (segments (playerSnake g3) # map segments (aiSnakes g2)) r2 (food g2))
     else g3 = g2 \<and> r3 = r2"
    by blast
  from wallBounces_returns [OF a] obtain snakes where bounce:
    "wallBounces (aiSnakes g2) = Some snakes" "map segments snakes = map segments (aiSnakes g2)"
    "map direction snakes = map direction (aiSnakes g2)"
    by blast
  have over: "\<not> isGameOver g3"
    using food(3) moveStep_Some(8) [OF move] pauseStep_frame(1) [OF run(3)] run(1) by simp
  have "Game_update c r g = Some (g3\<lparr>aiSnakes := snakes\<rparr>, c2, r3)"
    using Game_update_running [OF run move] safe food(1,2) bounce(1) by simp
  then show ?thesis using food bounce over by blast
qed




lemma gameOver_fields:
  "isGameOver (gameOver g)" "playerSnake (gameOver g) = playerSnake g"
  "aiSnakes (gameOver g) = aiSnakes g" "score (gameOver g) = score g" "food (gameOver g) = food g"
  "gameStartTime (gameOver g) = gameStartTime g" "isGracePeriod (gameOver g) = isGracePeriod g"
  "isPaused (gameOver g) = isPaused g"
  "statusElement (ui (gameOver g)) = ''GAME OVER''"
  "finalScoreElement (ui (gameOver g)) = score g"
  "\<not> gameOverHidden (ui (gameOver g))"
  by (simp_all add: gameOver_def updateUI_def)

text \<open>
  The loop over the autonomous snakes calls the check for the positions up to the first
  hit, in order, and for all positions when there is no hit.
\<close>

lemma collidesWithAny_first_hit:
  assumes "k < length ais" and "checkCollisionWithSnake p (ais ! k) = Some True"
    and "\<forall>j < k. checkCollisionWithSnake p (ais ! j) = Some False"
  shows "collidesWithAny p i ais = (map SnakeCheck [i..<i + Suc k], Some True)"
  using assms
proof (induction ais arbitrary: i k)
  case Nil
  then show ?case by simp
next
  case (Cons a ais)
  show ?case
  proof (cases k)
    case 0
    then show ?thesis using Cons.prems by simp
  next
    case (Suc k')
    have miss: "checkCollisionWithSnake p a = Some False"
      using Cons.prems(3) Suc by (auto dest: spec [of _ 0])
    have k': "k' < length ais" "checkCollisionWithSnake p (ais ! k') = Some True"
      using Cons.prems(1,2) Suc by simp_all
    have before: "\<forall>j < k'. checkCollisionWithSnake p (ais ! j) = Some False"
    proof (intro allI impI)
      fix j assume "j < k'"
      then have "Suc j < k" using Suc by simp
      then have "checkCollisionWithSnake p ((a # ais) ! Suc j) = Some False"
        using Cons.prems(3) by blast
      then show "checkCollisionWithSnake p (ais ! j) = Some False" by simp
    qed
    have ih: "collidesWithAny p (Suc i) ais = (map SnakeCheck [Suc i..<Suc i + Suc k'], Some True)"
      by (rule Cons.IH [OF k' before])
    have "[i..<i + Suc k] = i # [Suc i..<i + Suc k]"
      by (rule upt_conv_Cons) simp
    moreover have "Suc i + Suc k' = i + Suc k" using Suc by simp
    ultimately show ?thesis using miss ih by (simp del: upt_Suc)
  qed
qed

lemma collidesWithAny_no_hit:
  assumes "\<forall>j < length ais. checkCollisionWithSnake p (ais ! j) = Some False"
  shows "collidesWithAny p i ais = (map SnakeCheck [i..<i + length ais], Some False)"
  using assms
proof (induction ais arbitrary: i)
  case Nil
  then show ?case by simp
next
  case (Cons a ais)
  have miss: "checkCollisionWithSnake p a = Some False"
    using Cons.prems by (auto dest: spec [of _ 0])
  have rest: "\<forall>j < length ais. checkCollisionWithSnake p (ais ! j) = Some False"
  proof (intro allI impI)
    fix j assume "j < length ais"
    then have "checkCollisionWithSnake p ((a # ais) ! Suc j) = Some False"
      using Cons.prems by (auto dest: spec [of _ "Suc j"])
    then show "checkCollisionWithSnake p (ais ! j) = Some False" by simp
  qed
  have ih: "collidesWithAny p (Suc i) ais = (map SnakeCheck [Suc i..<Suc i + length ais], Some False)"
    by (rule Cons.IH [OF rest])
  have "[i..<i + length (a # ais)] = i # [Suc i..<i + length (a # ais)]"
    by (rule upt_conv_Cons) simp
  moreover have "Suc i + length ais = i + length (a # ais)" by simp
  ultimately show ?case using miss ih by (simp del: upt_Suc)
qed

text \<open>
  C7, amended. Take a call of \<^verbatim>\<open>update\<close> in a started session that is not over and
  not paused once the pause toggle is handled, in which every snake has moved and the
  clock reading at the grace check is not within the grace period. The fatal checks on
  the moved player are called in the order wall, self, each autonomous snake in list
  order, and no check is called after the first true one: with a true wall check the
  wall check is the only call; with a false wall check and a true self check these two
  are the only calls; otherwise the autonomous snakes are checked from the first of the
  list up to the first one that the head is on, or all of them when the head is on
  none. A tick with a true check ends the session: the call returns the moved state
  with the game-over flag set, the final score and the status \<open>GAME OVER\<close> shown, and
  neither food collection nor the wall bounce of that tick applied. A tick without one
  leaves the session running. Nothing records which check was the true one.
\<close>

theorem C7_fatal_checks_in_order:
  assumes run: "\<not> isGameOver g" "\<not> isWaitingToStart g" "pauseStep c g = (g1, c1)" "\<not> isPaused g1"
    and move: "moveStep c1 r g1 = Some (g2, c2, r2)"
    and late: "\<not> c1 0 - gameStartTime g1 < GRACE_PERIOD"
  shows "(checkWallCollision CANVAS_WIDTH CANVAS_HEIGHT (playerSnake g2) = Some True
            \<longrightarrow> fatalCollision g2 = ([WallCheck], Some True))
       \<and> (checkWallCollision CANVAS_WIDTH CANVAS_HEIGHT (playerSnake g2) = Some False
            \<and> checkSelfCollision (playerSnake g2)
            \<longrightarrow> fatalCollision g2 = ([WallCheck, SelfCheck], Some True))
       \<and> (checkWallCollision CANVAS_WIDTH CANVAS_HEIGHT (playerSnake g2) = Some False
            \<and> \<not> checkSelfCollision (playerSnake g2)
            \<and> k < length (aiSnakes g2)
            \<and> checkCollisionWithSnake (playerSnake g2) (aiSnakes g2 ! k) = Some True
            \<and> (\<forall>j < k. checkCollisionWithSnake (playerSnake g2) (aiSnakes g2 ! j) = Some False)
            \<longrightarrow> fatalCollision g2
                  = (WallCheck # SelfCheck # map SnakeCheck [0..<Suc k], Some True))
       \<and> (checkWallCollision CANVAS_WIDTH CANVAS_HEIGHT (playerSnake g2) = Some False
            \<and> \<not> checkSelfCollision (playerSnake g2)
            \<and> (\<forall>j < length (aiSnakes g2).
                  checkCollisionWithSnake (playerSnake g2) (aiSnakes g2 ! j) = Some False)
            \<longrightarrow> fatalCollision g2
                  = (WallCheck # SelfCheck # map SnakeCheck [0..<length (aiSnakes g2)], Some False))
       \<and> (snd (fatalCollision g2) = Some True \<longrightarrow>
            Game_update c r g = Some (gameOver g2, c2, r2)
            \<and> isGameOver (gameOver g2)
            \<and> playerSnake (gameOver g2) = playerSnake g2 \<and> aiSnakes (gameOver g2) = aiSnakes g2
            \<and> score (gameOver g2) = score g \<and> food (gameOver g2) = food g
            \<and> statusElement (ui (gameOver g2)) = ''GAME OVER''
            \<and> finalScoreElement (ui (gameOver g2)) = score g
            \<and> \<not> gameOverHidden (ui (gameOver g2)))
       \<and> (snd (fatalCollision g2) = Some False \<longrightarrow>
            (\<exists>g' c' r'. Game_update c r g = Some (g', c', r') \<and> \<not> isGameOver g'))"
proof -
  have ng: "\<not> isGracePeriod g2" using moveStep_Some(1) [OF move] late by simp
  have a: "checkWallCollision CANVAS_WIDTH CANVAS_HEIGHT (playerSnake g2) = Some True
            \<longrightarrow> fatalCollision g2 = ([WallCheck], Some True)"
    using ng by (simp add: fatalCollision_def)
  have b: "checkWallCollision CANVAS_WIDTH CANVAS_HEIGHT (playerSnake g2) = Some False
            \<and> checkSelfCollision (playerSnake g2)
            \<longrightarrow> fatalCollision g2 = ([WallCheck, SelfCheck], Some True)"
    using ng by (simp add: fatalCollision_def)
  have d: "checkWallCollision CANVAS_WIDTH CANVAS_HEIGHT (playerSnake g2) = Some False
            \<and> \<not> checkSelfCollision (playerSnake g2)
            \<and> k < length (aiSnakes g2)
            \<and> checkCollisionWithSnake (playerSnake g2) (aiSnakes g2 ! k) = Some True
            \<and> (\<forall>j < k. checkCollisionWithSnake (playerSnake g2) (aiSnakes g2 ! j) = Some False)
            \<longrightarrow> fatalCollision g2
                  = (WallCheck # SelfCheck # map SnakeCheck [0..<Suc k], Some True)"
  proof
    assume h: "checkWallCollision CANVAS_WIDTH CANVAS_HEIGHT (playerSnake g2) = Some False
            \<and> \<not> checkSelfCollision (playerSnake g2)
            \<and> k < length (aiSnakes g2)
            \<and> checkCollisionWithSnake (playerSnake g2) (aiSnakes g2 ! k) = Some True
            \<and> (\<forall>j < k. checkCollisionWithSnake (playerSnake g2) (aiSnakes g2 ! j) = Some False)"
    then have "collidesWithAny (playerSnake g2) 0 (aiSnakes g2)
                 = (map SnakeCheck [0..<0 + Suc k], Some True)"
      by (intro collidesWithAny_first_hit) simp_all
    then show "fatalCollision g2
                 = (WallCheck # SelfCheck # map SnakeCheck [0..<Suc k], Some True)"
      using ng h by (simp add: fatalCollision_def)
  qed
  have e: "checkWallCollision CANVAS_WIDTH CANVAS_HEIGHT (playerSnake g2) = Some False
            \<and> \<not> checkSelfCollision (playerSnake g2)
            \<and> (\<forall>j < length (aiSnakes g2).
                  checkCollisionWithSnake (playerSnake g2) (aiSnakes g2 ! j) = Some False)
            \<longrightarrow> fatalCollision g2
                  = (WallCheck # SelfCheck # map SnakeCheck [0..<length (aiSnakes g2)], Some False)"
  proof
    assume h: "checkWallCollision CANVAS_WIDTH CANVAS_HEIGHT (playerSnake g2) = Some False
            \<and> \<not> checkSelfCollision (playerSnake g2)
            \<and> (\<forall>j < length (aiSnakes g2).
                  checkCollisionWithSnake (playerSnake g2) (aiSnakes g2 ! j) = Some False)"
    then have "collidesWithAny (playerSnake g2) 0 (aiSnakes g2)
                 = (map SnakeCheck [0..<0 + length (aiSnakes g2)], Some False)"
      by (intro collidesWithAny_no_hit) simp
    then show "fatalCollision g2
                 = (WallCheck # SelfCheck # map SnakeCheck [0..<length (aiSnakes g2)], Some False)"
      using ng h by (simp add: fatalCollision_def)
  qed
  have same: "score g2 = score g" "food g2 = food g"
    using moveStep_Some(6,11) [OF move] pauseStep_frame(5,6) [OF run(3)] by simp_all
  have f: "snd (fatalCollision g2) = Some True \<longrightarrow>
            Game_update c r g = Some (gameOver g2, c2, r2)
            \<and> isGameOver (gameOver g2)
            \<and> playerSnake (gameOver g2) = playerSnake g2 \<and> aiSnakes (gameOver g2) = aiSnakes g2
            \<and> score (gameOver g2) = score g \<and> food (gameOver g2) = food g
            \<and> statusElement (ui (gameOver g2)) = ''GAME OVER''
            \<and> finalScoreElement (ui (gameOver g2)) = score g
            \<and> \<not> gameOverHidden (ui (gameOver g2))"
    using Game_update_running [OF run move] same by (simp add: gameOver_fields)
  have g: "snd (fatalCollision g2) = Some False \<longrightarrow>
            (\<exists>g' c' r'. Game_update c r g = Some (g', c', r') \<and> \<not> isGameOver g')"
  proof
    assume safe: "snd (fatalCollision g2) = Some False"
    from Game_update_not_fatal [OF run move safe] obtain g3 r3 snakes where
      "Game_update c r g = Some (g3\<lparr>aiSnakes := snakes\<rparr>, c2, r3)" "\<not> isGameOver g3"
      by blast
    then have "Game_update c r g = Some (g3\<lparr>aiSnakes := snakes\<rparr>, c2, r3)
               \<and> \<not> isGameOver (g3\<lparr>aiSnakes := snakes\<rparr>)" by simp
    then show "\<exists>g' c' r'. Game_update c r g = Some (g', c', r') \<and> \<not> isGameOver g'" by blast
  qed
  show ?thesis using a b d e f g by blast
qed

text \<open>
  C7, as stated, fails in its last part: no failure reason is reported. Outside the grace
  period, a player that steps onto a cell by the wall that an autonomous snake enters in
  the same tick, and a player that meets the same snake in the middle of the canvas, end
  their sessions with the same flag and the same page.
\<close>

theorem C7_counterexample:
  "playerOnWall (Game_update late_clock half_draws wall_game)
   \<and> playerOnSnake (Game_update late_clock half_draws wall_game)
   \<and> \<not> playerOnWall (Game_update late_clock half_draws inner_game)
   \<and> playerOnSnake (Game_update late_clock half_draws inner_game)
   \<and> sessionReport (Game_update late_clock half_draws wall_game)
       = Some (True,
           \<lparr>scoreElement = 0, lengthElement = 6, speedElement = 1, speedUpDisabled = False,
            speedDownDisabled = False, statusElement = ''GAME OVER'', finalScoreElement = 0,
            gameOverHidden = False, startScreenHidden = True\<rparr>)
   \<and> sessionReport (Game_update late_clock half_draws inner_game)
       = sessionReport (Game_update late_clock half_draws wall_game)"
  by code_simp

theorem C7_witness:
  "\<not> isGameOver wall_game \<and> \<not> isWaitingToStart wall_game
   \<and> pauseStep late_clock wall_game = (wall_game, late_clock) \<and> \<not> isPaused wall_game
   \<and> \<not> late_clock 0 - gameStartTime wall_game < GRACE_PERIOD
   \<and> checksOfTick late_clock half_draws wall_game = Some ([WallCheck], Some True)
   \<and> map_option fst (sessionReport (Game_update late_clock half_draws wall_game)) = Some True"
proof -
  have h1: "\<not> isGameOver wall_game" and h2: "\<not> isWaitingToStart wall_game"
    and h4: "\<not> isPaused wall_game"
    by (simp_all add: wall_game_def session_with_def)
  have h3: "pauseStep late_clock wall_game = (wall_game, late_clock)"
    by (simp add: pauseStep_def checkPauseToggle_def wall_game_def session_with_def
          new_InputHandler_def)
  have h5: "snakes_present wall_game" by code_simp
  have h6: "unit_draws half_draws" by (simp add: unit_draws_def half_draws_def)
  have h7: "\<not> late_clock 0 - gameStartTime wall_game < GRACE_PERIOD"
    by (simp add: late_clock_def wall_game_def session_with_def GRACE_PERIOD_def)
  from moveStep_returns [OF h5 h6, of late_clock] obtain g2 c2 r2 where
    move: "moveStep late_clock half_draws wall_game = Some (g2, c2, r2)" by blast
  have "map_option (\<lambda>(g, c, r). checkWallCollision CANVAS_WIDTH CANVAS_HEIGHT (playerSnake g))
          (moveStep late_clock half_draws wall_game) = Some (Some True)"
    by code_simp
  then have wall: "checkWallCollision CANVAS_WIDTH CANVAS_HEIGHT (playerSnake g2) = Some True"
    using move by simp
  from C7_fatal_checks_in_order [OF h1 h2 h3 h4 move h7] wall
  have checks: "fatalCollision g2 = ([WallCheck], Some True)" by blast
  then have "snd (fatalCollision g2) = Some True" by simp
  with C7_fatal_checks_in_order [OF h1 h2 h3 h4 move h7]
  have "Game_update late_clock half_draws wall_game = Some (gameOver g2, c2, r2)"
    and "isGameOver (gameOver g2)"
    by blast+
  then have over: "map_option fst (sessionReport (Game_update late_clock half_draws wall_game))
               = Some True"
    by (simp add: sessionReport_def)
  have "checksOfTick late_clock half_draws wall_game = Some ([WallCheck], Some True)"
    using h3 move checks by (simp add: checksOfTick_def)
  then show ?thesis using h1 h2 h3 h4 h7 over by blast
qed

text \<open>
  In the middle of the canvas the same meeting takes all three kinds of check, in order.
\<close>

lemma inner_game_checks:
  "checksOfTick late_clock half_draws inner_game
     = Some ([WallCheck, SelfCheck, SnakeCheck 0], Some True)"
  by code_simp

lemma speedMultiplier_mono: "s \<le> t \<Longrightarrow> speedMultiplier s \<le> speedMultiplier t"
proof -
  assume "s \<le> t"
  then have "(of_int s :: rat) / 50 \<le> of_int t / 50" by simp
  then have "fl (of_int s / 50) \<le> fl (of_int t / 50)" by (rule fl_mono)
  then have "\<lfloor>fl (of_int s / 50)\<rfloor> \<le> \<lfloor>fl (of_int t / 50)\<rfloor>" by (rule floor_mono)
  then have "(of_int \<lfloor>fl (of_int s / 50)\<rfloor> :: rat) \<le> of_int \<lfloor>fl (of_int t / 50)\<rfloor>" by simp
  then have "of_int \<lfloor>fl (of_int s / 50)\<rfloor> * SPEED_INCREASE_RATE
               \<le> of_int \<lfloor>fl (of_int t / 50)\<rfloor> * SPEED_INCREASE_RATE"
    using SPEED_INCREASE_RATE_pos by (simp add: mult_right_mono)
  then have "fl (of_int \<lfloor>fl (of_int s / 50)\<rfloor> * SPEED_INCREASE_RATE)
               \<le> fl (of_int \<lfloor>fl (of_int t / 50)\<rfloor> * SPEED_INCREASE_RATE)"
    by (rule fl_mono)
  then have "1 + fl (of_int \<lfloor>fl (of_int s / 50)\<rfloor> * SPEED_INCREASE_RATE)
               \<le> 1 + fl (of_int \<lfloor>fl (of_int t / 50)\<rfloor> * SPEED_INCREASE_RATE)"
    by simp
  then show ?thesis unfolding speedMultiplier_def by (rule fl_mono)
qed

lemma speedMultiplier_ge_1: "0 \<le> s \<Longrightarrow> 1 \<le> speedMultiplier s"
proof -
  assume "0 \<le> s"
  then have "(0::rat) \<le> of_int s / 50" by simp
  then have "0 \<le> fl (of_int s / 50)" by (rule fl_nonneg)
  then have "(0::rat) \<le> of_int \<lfloor>fl (of_int s / 50)\<rfloor>" by simp
  then have "0 \<le> of_int \<lfloor>fl (of_int s / 50)\<rfloor> * SPEED_INCREASE_RATE"
    using SPEED_INCREASE_RATE_pos by simp
  then have "0 \<le> fl (of_int \<lfloor>fl (of_int s / 50)\<rfloor> * SPEED_INCREASE_RATE)" by (rule fl_nonneg)
  then have "1 \<le> 1 + fl (of_int \<lfloor>fl (of_int s / 50)\<rfloor> * SPEED_INCREASE_RATE)" by simp
  then have "fl 1 \<le> speedMultiplier s" unfolding speedMultiplier_def by (rule fl_mono)
  then show ?thesis by (simp add: fl_one)
qed

text \<open>
  C6, as stated, fails: the code computes in doubles, and the rounded value is not
  always the exact one. At score 350 the exact value of the formula is \<open>17/10\<close>, and
  the base speed of the code is the next double above the double nearest to \<open>17/10\<close>
  (printed as 1.7000000000000002); the movement interval at user speed \<open>1\<close> is a
  double (printed as 73.52941176470587), not the exact quotient \<open>1250/17\<close>.
\<close>

theorem C6_counterexample:
  "min (speedMultiplier 350) MAX_SPEED_MULTIPLIER = 7656119366529844 / 4503599627370496
   \<and> min (1 + of_int \<lfloor>350 / (50::rat)\<rfloor> * (1 / 10)) (2::rat) = 17 / 10
   \<and> (7656119366529844 / 4503599627370496 :: rat) \<noteq> 17 / 10
   \<and> speedOf (moveStep early_clock half_draws (bounce_game\<lparr>score := 350\<rparr>))
       = Some (7656119366529844 / 4503599627370496, 5174172366004705 / 70368744177664)
   \<and> (125 :: rat) / (17 / 10 * 1) = 1250 / 17
   \<and> (5174172366004705 / 70368744177664 :: rat) \<noteq> 1250 / 17"
  by code_simp

text \<open>
  C6, amended. The base speed that \<^verbatim>\<open>update\<close> sets for score \<open>s\<close> is
  \<open>min (1 + floor (s / 50) * increaseRate) maxMultiplier\<close> evaluated in double
  arithmetic: the quotient, the product with the double nearest to one tenth and the
  sum are each rounded to the nearest double. It does not decrease when the score grows
  and never exceeds \<open>2\<close>. After the movement part of a tick the base speed is that
  value for the score of the tick, and the movement interval is the rounded quotient of
  the base interval and the rounded product of base speed and user speed; that product
  is positive when the score is not negative and the user speed is positive.
  \<^verbatim>\<open>updateSpeed\<close> alone sets the interval to the same rounded quotient.
\<close>

theorem C6_speed_multiplier:
  "speedMultiplier s = fl (1 + fl (of_int \<lfloor>fl (of_int s / 50)\<rfloor> * fl (1 / 10)))
   \<and> (s \<le> t \<longrightarrow> min (speedMultiplier s) MAX_SPEED_MULTIPLIER
                    \<le> min (speedMultiplier t) MAX_SPEED_MULTIPLIER)
   \<and> min (speedMultiplier s) MAX_SPEED_MULTIPLIER \<le> 2
   \<and> (moveStep c r g = Some (g2, c2, r2) \<longrightarrow>
        baseSpeed g2 = min (speedMultiplier (score g)) MAX_SPEED_MULTIPLIER
        \<and> moveInterval g2 = fl (BASE_MOVE_INTERVAL / fl (baseSpeed g2 * userSpeedMultiplier g2))
        \<and> (0 \<le> score g \<and> 0 < userSpeedMultiplier g \<longrightarrow>
             0 < fl (baseSpeed g2 * userSpeedMultiplier g2)))
   \<and> moveInterval (updateSpeed g)
       = fl (BASE_MOVE_INTERVAL / fl (baseSpeed g * userSpeedMultiplier g))"
proof -
  have a: "speedMultiplier s = fl (1 + fl (of_int \<lfloor>fl (of_int s / 50)\<rfloor> * fl (1 / 10)))"
    by (simp only: speedMultiplier_def SPEED_INCREASE_RATE_def)
  have b: "s \<le> t \<longrightarrow> min (speedMultiplier s) MAX_SPEED_MULTIPLIER
                    \<le> min (speedMultiplier t) MAX_SPEED_MULTIPLIER"
    using speedMultiplier_mono [of s t] by (auto simp: min_def)
  have c: "min (speedMultiplier s) MAX_SPEED_MULTIPLIER \<le> 2"
    by (simp add: MAX_SPEED_MULTIPLIER_def)
  have d: "moveStep c r g = Some (g2, c2, r2) \<longrightarrow>
        baseSpeed g2 = min (speedMultiplier (score g)) MAX_SPEED_MULTIPLIER
        \<and> moveInterval g2 = fl (BASE_MOVE_INTERVAL / fl (baseSpeed g2 * userSpeedMultiplier g2))
        \<and> (0 \<le> score g \<and> 0 < userSpeedMultiplier g \<longrightarrow>
             0 < fl (baseSpeed g2 * userSpeedMultiplier g2))"
  proof
    assume move: "moveStep c r g = Some (g2, c2, r2)"
    have pos: "0 \<le> score g \<and> 0 < userSpeedMultiplier g \<longrightarrow>
                 0 < fl (baseSpeed g2 * userSpeedMultiplier g2)"
    proof
      assume h: "0 \<le> score g \<and> 0 < userSpeedMultiplier g"
      then have "1 \<le> speedMultiplier (score g)" by (simp add: speedMultiplier_ge_1)
      then have "0 < baseSpeed g2"
        using moveStep_Some(2) [OF move] by (simp add: MAX_SPEED_MULTIPLIER_def min_def)
      then have "0 < baseSpeed g2 * userSpeedMultiplier g2"
        using h moveStep_Some(5) [OF move] by simp
      then show "0 < fl (baseSpeed g2 * userSpeedMultiplier g2)" by (rule fl_pos)
    qed
    show "baseSpeed g2 = min (speedMultiplier (score g)) MAX_SPEED_MULTIPLIER
        \<and> moveInterval g2 = fl (BASE_MOVE_INTERVAL / fl (baseSpeed g2 * userSpeedMultiplier g2))
        \<and> (0 \<le> score g \<and> 0 < userSpeedMultiplier g \<longrightarrow>
             0 < fl (baseSpeed g2 * userSpeedMultiplier g2))"
      using moveStep_Some(2,4) [OF move] pos by blast
  qed
  have e: "moveInterval (updateSpeed g)
             = fl (BASE_MOVE_INTERVAL / fl (baseSpeed g * userSpeedMultiplier g))"
    by (simp add: updateSpeed_def Let_def)
  show ?thesis using a b c d e by blast
qed

theorem C6_witness:
  "(120 :: int) \<le> 2000
   \<and> min (speedMultiplier 120) MAX_SPEED_MULTIPLIER \<le> min (speedMultiplier 2000) MAX_SPEED_MULTIPLIER
   \<and> min (speedMultiplier 2000) MAX_SPEED_MULTIPLIER = 2
   \<and> 0 \<le> score (bounce_game\<lparr>score := 120\<rparr>)
   \<and> 0 < userSpeedMultiplier (bounce_game\<lparr>score := 120\<rparr>)
   \<and> speedOf (moveStep early_clock half_draws (bounce_game\<lparr>score := 120\<rparr>))
       = Some (5404319552844595 / 4503599627370496, 7330077518506667 / 70368744177664)"
proof -
  have top: "min (speedMultiplier 2000) MAX_SPEED_MULTIPLIER = 2" by code_simp
  have v1: "min (speedMultiplier 120) MAX_SPEED_MULTIPLIER = 5404319552844595 / 4503599627370496"
    by code_simp
  have v2: "fl (BASE_MOVE_INTERVAL / fl (min (speedMultiplier 120) MAX_SPEED_MULTIPLIER * 1))
              = 7330077518506667 / 70368744177664"
    by code_simp
  have present: "snakes_present (bounce_game\<lparr>score := 120\<rparr>)" by code_simp
  have draws: "unit_draws half_draws" by (simp add: unit_draws_def half_draws_def)
  have sc: "0 \<le> score (bounce_game\<lparr>score := 120\<rparr>)"
           "0 < userSpeedMultiplier (bounce_game\<lparr>score := 120\<rparr>)"
    by (simp_all add: bounce_game_def session_with_def)
  from moveStep_returns [OF present draws, of early_clock] obtain g2 c2 r2 where
    move: "moveStep early_clock half_draws (bounce_game\<lparr>score := 120\<rparr>) = Some (g2, c2, r2)"
    by blast
  have user: "userSpeedMultiplier g2 = 1"
    using moveStep_Some(5) [OF move] by (simp add: bounce_game_def session_with_def)
  have le: "(120 :: int) \<le> 2000" by simp
  note inst = C6_speed_multiplier [of 120 2000 early_clock half_draws
                "bounce_game\<lparr>score := 120\<rparr>" g2 c2 r2]
  have mono: "min (speedMultiplier 120) MAX_SPEED_MULTIPLIER
                \<le> min (speedMultiplier 2000) MAX_SPEED_MULTIPLIER"
    using inst le by blast
  have base: "baseSpeed g2 = min (speedMultiplier (score (bounce_game\<lparr>score := 120\<rparr>))) MAX_SPEED_MULTIPLIER"
    and interval: "moveInterval g2 = fl (BASE_MOVE_INTERVAL / fl (baseSpeed g2 * userSpeedMultiplier g2))"
    using inst move by blast+
  have bs: "baseSpeed g2 = min (speedMultiplier 120) MAX_SPEED_MULTIPLIER"
    using base by simp
  have mi: "moveInterval g2
              = fl (BASE_MOVE_INTERVAL / fl (min (speedMultiplier 120) MAX_SPEED_MULTIPLIER * 1))"
    using interval by (simp only: bs user)
  have "speedOf (moveStep early_clock half_draws (bounce_game\<lparr>score := 120\<rparr>))
          = Some (5404319552844595 / 4503599627370496, 7330077518506667 / 70368744177664)"
    by (simp only: move speedOf_def option.map prod.case bs mi v2) (simp only: v1)
  then show ?thesis using top mono sc by simp
qed

lemma Game_update_over: "isGameOver g \<Longrightarrow> Game_update c r g = Some (g, c, r)"
  by (simp add: Game_update_def)

lemma Game_update_paused_idle:
  assumes "\<not> isGameOver g" and "\<not> isWaitingToStart g" and "isPaused g"
    and "\<not> (pauseKeyDown (inputHandler g) \<and> \<not> pauseKeyWasDown (inputHandler g))"
  shows "Game_update c r g = Some (g, c, r)"
proof -
  have "checkPauseToggle (inputHandler g) = (False, inputHandler g)"
    using assms(4) by (auto simp: checkPauseToggle_def)
  then have "pauseStep c g = (g, c)" by (simp add: pauseStep_def)
  then show ?thesis using assms(1-3) by (simp add: Game_update_def)
qed

lemma pauseStep_resume:
  assumes "isPaused g" and "pauseKeyDown (inputHandler g)" and "\<not> pauseKeyWasDown (inputHandler g)"
  shows "pauseStep c g =
           (g\<lparr>inputHandler := (inputHandler g)\<lparr>pauseKeyWasDown := True\<rparr>, isPaused := False,
               gameStartTime := c 0 - (c 1 - gameStartTime g)\<rparr>,
            \<lambda>i. c (Suc (Suc i)))"
  using assms by (simp add: pauseStep_def checkPauseToggle_def Date_now_def Let_def)

lemma foodStep_isPaused:
  "foodStep r g = Some (g3, r3) \<Longrightarrow> isPaused g3 = isPaused g"
  by (auto simp: foodStep_def updateUI_def Let_def split: option.splits if_splits prod.splits)

lemma Game_update_frame:
  assumes run: "\<not> isGameOver g" "\<not> isWaitingToStart g" "pauseStep c g = (g1, c1)" "\<not> isPaused g1"
    and ok: "snakes_present g" "unit_draws r"
  shows "\<exists>g' c' r'. Game_update c r g = Some (g', c', r')
           \<and> gameStartTime g' = gameStartTime g1
           \<and> isGracePeriod g' = (c1 0 - gameStartTime g1 < GRACE_PERIOD)
           \<and> \<not> isPaused g' \<and> segments (playerSnake g') \<noteq> [] \<and> unit_draws r'"
proof -
  have "snakes_present g1"
    using ok(1) pauseStep_frame(3,4) [OF run(3)] by (simp add: snakes_present_def)
  from moveStep_returns [OF this ok(2), of c1] obtain g2 c2 r2 where
    move: "moveStep c1 r g1 = Some (g2, c2, r2)" and r2: "unit_draws r2"
    and present: "snakes_present g2" by blast
  note m = moveStep_Some [OF move]
  have p: "segments (playerSnake g2) \<noteq> []" using present by (simp add: snakes_present_def)
  obtain fatal where fatal: "snd (fatalCollision g2) = Some fatal"
  proof (cases "isGracePeriod g2")
    case True
    then show ?thesis using that [of False] by (simp add: fatalCollision_grace)
  next
    case False
    from p obtain head rest where "segments (playerSnake g2) = head # rest"
      by (cases "segments (playerSnake g2)") auto
    from fatalCollision_eq [OF False this] show ?thesis using that by blast
  qed
  show ?thesis
  proof (cases fatal)
    case True
    then have "Game_update c r g = Some (gameOver g2, c2, r2)"
      using Game_update_running [OF run move] fatal by simp
    then show ?thesis
      using m(1,7,9) run(4) r2 p by (simp add: gameOver_fields)
  next
    case False
    then have safe: "snd (fatalCollision g2) = Some False" using fatal by simp
    from Game_update_not_fatal [OF run move safe] obtain g3 r3 snakes where
      "foodStep r2 g2 = Some (g3, r3)"
      "Game_update c r g = Some (g3\<lparr>aiSnakes := snakes\<rparr>, c2, r3)"
      "gameStartTime g3 = gameStartTime g2" "isGracePeriod g3 = isGracePeriod g2"
      "segments (playerSnake g3) \<noteq> []" "unit_draws r2 \<longrightarrow> unit_draws r3"
      by blast
    moreover have "\<not> isPaused g3"
      using foodStep_isPaused [OF calculation(1)] m(9) run(4) by simp
    ultimately show ?thesis using m(1,7) r2 by simp
  qed
qed


text \<open>
  C10, as stated, fails: line 717 reads the clock twice, and the assignment is the
  identity only when both readings are the same. A session paused with anchor \<open>0\<close>
  and resumed by a call whose readings are 5000 and 5003 has the anchor \<open>-3\<close>
  afterwards.
\<close>

theorem C10_counterexample:
  "gameStartTime paused_game = 0
   \<and> ticking_clock 0 = 5000 \<and> ticking_clock 1 = 5003
   \<and> graceAnchor (Game_update ticking_clock half_draws paused_game) = Some (- 3, False, False)"
  by code_simp

text \<open>
  C10, amended. While a started session is paused and no new press of the pause key is
  seen, a call of \<^verbatim>\<open>update\<close> changes nothing and does not read the clock. On the call
  that sees the new press, the session is no longer paused and the anchor of the grace
  period becomes the old anchor minus the time between the two clock readings of line
  717: it is the old anchor when both readings are the same, it is never later than the
  old anchor when the clock does not run backwards, and it does not depend on how long
  the pause lasted. The call returns with that anchor, and its grace flag compares the
  clock reading of the grace check with it, so the time spent paused counts towards the
  end of the grace period.
\<close>

theorem C10_resume_keeps_anchor:
  "(\<not> isGameOver g \<and> \<not> isWaitingToStart g \<and> isPaused g
      \<and> \<not> (pauseKeyDown (inputHandler g) \<and> \<not> pauseKeyWasDown (inputHandler g))
      \<longrightarrow> Game_update c r g = Some (g, c, r))
   \<and> (\<not> isGameOver g \<and> \<not> isWaitingToStart g \<and> isPaused g
      \<and> pauseKeyDown (inputHandler g) \<and> \<not> pauseKeyWasDown (inputHandler g)
      \<and> snakes_present g \<and> unit_draws r
      \<longrightarrow> gameStartTime (fst (pauseStep c g)) = gameStartTime g - (c 1 - c 0)
          \<and> (c 0 = c 1 \<longrightarrow> gameStartTime (fst (pauseStep c g)) = gameStartTime g)
          \<and> (c 0 \<le> c 1 \<longrightarrow> gameStartTime (fst (pauseStep c g)) \<le> gameStartTime g)
          \<and> \<not> isPaused (fst (pauseStep c g))
          \<and> (\<exists>g' c' r'. Game_update c r g = Some (g', c', r')
                \<and> gameStartTime g' = gameStartTime g - (c 1 - c 0) \<and> \<not> isPaused g'
                \<and> isGracePeriod g'
                    = (c 2 - (gameStartTime g - (c 1 - c 0)) < GRACE_PERIOD)))"
proof -
  have idle: "\<not> isGameOver g \<and> \<not> isWaitingToStart g \<and> isPaused g
      \<and> \<not> (pauseKeyDown (inputHandler g) \<and> \<not> pauseKeyWasDown (inputHandler g))
      \<longrightarrow> Game_update c r g = Some (g, c, r)"
    using Game_update_paused_idle by blast
  have resume: "\<not> isGameOver g \<and> \<not> isWaitingToStart g \<and> isPaused g
      \<and> pauseKeyDown (inputHandler g) \<and> \<not> pauseKeyWasDown (inputHandler g)
      \<and> snakes_present g \<and> unit_draws r
      \<longrightarrow> gameStartTime (fst (pauseStep c g)) = gameStartTime g - (c 1 - c 0)
          \<and> (c 0 = c 1 \<longrightarrow> gameStartTime (fst (pauseStep c g)) = gameStartTime g)
          \<and> (c 0 \<le> c 1 \<longrightarrow> gameStartTime (fst (pauseStep c g)) \<le> gameStartTime g)
          \<and> \<not> isPaused (fst (pauseStep c g))
          \<and> (\<exists>g' c' r'. Game_update c r g = Some (g', c', r')
                \<and> gameStartTime g' = gameStartTime g - (c 1 - c 0) \<and> \<not> isPaused g'
                \<and> isGracePeriod g'
                    = (c 2 - (gameStartTime g - (c 1 - c 0)) < GRACE_PERIOD))"
  proof
    assume h: "\<not> isGameOver g \<and> \<not> isWaitingToStart g \<and> isPaused g
      \<and> pauseKeyDown (inputHandler g) \<and> \<not> pauseKeyWasDown (inputHandler g)
      \<and> snakes_present g \<and> unit_draws r"
    define g1 where "g1 = g\<lparr>inputHandler := (inputHandler g)\<lparr>pauseKeyWasDown := True\<rparr>,
                            isPaused := False, gameStartTime := c 0 - (c 1 - gameStartTime g)\<rparr>"
    define c1 where "c1 = (\<lambda>i. c (Suc (Suc i)))"
    have ps: "pauseStep c g = (g1, c1)"
      using h pauseStep_resume [of g c] by (simp add: g1_def c1_def)
    have anchor: "gameStartTime g1 = gameStartTime g - (c 1 - c 0)" by (simp add: g1_def)
    have np: "\<not> isPaused g1" by (simp add: g1_def)
    have c12: "c1 0 = c 2" by (simp add: c1_def numeral_2_eq_2)
    from Game_update_frame [OF _ _ ps np, of r] h obtain g' c' r' where
      "Game_update c r g = Some (g', c', r')" "gameStartTime g' = gameStartTime g1"
      "isGracePeriod g' = (c1 0 - gameStartTime g1 < GRACE_PERIOD)" "\<not> isPaused g'"
      by blast
    then have "\<exists>g' c' r'. Game_update c r g = Some (g', c', r')
                \<and> gameStartTime g' = gameStartTime g - (c 1 - c 0) \<and> \<not> isPaused g'
                \<and> isGracePeriod g'
                    = (c 2 - (gameStartTime g - (c 1 - c 0)) < GRACE_PERIOD)"
      using anchor c12 by auto
    moreover have "c 0 = c 1 \<longrightarrow> gameStartTime g1 = gameStartTime g"
      using anchor by simp
    moreover have "c 0 \<le> c 1 \<longrightarrow> gameStartTime g1 \<le> gameStartTime g"
      using anchor by simp
    ultimately show "gameStartTime (fst (pauseStep c g)) = gameStartTime g - (c 1 - c 0)
          \<and> (c 0 = c 1 \<longrightarrow> gameStartTime (fst (pauseStep c g)) = gameStartTime g)
          \<and> (c 0 \<le> c 1 \<longrightarrow> gameStartTime (fst (pauseStep c g)) \<le> gameStartTime g)
          \<and> \<not> isPaused (fst (pauseStep c g))
          \<and> (\<exists>g' c' r'. Game_update c r g = Some (g', c', r')
                \<and> gameStartTime g' = gameStartTime g - (c 1 - c 0) \<and> \<not> isPaused g'
                \<and> isGracePeriod g'
                    = (c 2 - (gameStartTime g - (c 1 - c 0)) < GRACE_PERIOD))"
      using ps anchor np by simp
  qed
  show ?thesis using idle resume by blast
qed

theorem C10_witness:
  "\<not> isGameOver paused_game \<and> \<not> isWaitingToStart paused_game \<and> isPaused paused_game
   \<and> pauseKeyDown (inputHandler paused_game) \<and> \<not> pauseKeyWasDown (inputHandler paused_game)
   \<and> late_clock 0 = late_clock 1 \<and> snakes_present paused_game \<and> unit_draws half_draws
   \<and> gameStartTime paused_game = 0
   \<and> graceAnchor (Game_update late_clock half_draws paused_game) = Some (0, False, False)
   \<and> Game_update late_clock half_draws (paused_game\<lparr>inputHandler := new_InputHandler\<rparr>)
       = Some (paused_game\<lparr>inputHandler := new_InputHandler\<rparr>, late_clock, half_draws)"
proof -
  have flags: "\<not> isGameOver paused_game" "\<not> isWaitingToStart paused_game" "isPaused paused_game"
    "pauseKeyDown (inputHandler paused_game)" "\<not> pauseKeyWasDown (inputHandler paused_game)"
    "gameStartTime paused_game = 0"
    by (simp_all add: paused_game_def session_with_def new_InputHandler_def)
  have clk: "late_clock 0 = late_clock 1" "late_clock 1 = 5000" "late_clock 2 = 5000"
    by (simp_all add: late_clock_def)
  have present: "snakes_present paused_game" by code_simp
  have draws: "unit_draws half_draws" by (simp add: unit_draws_def half_draws_def)
  have idle_flags: "\<not> isGameOver (paused_game\<lparr>inputHandler := new_InputHandler\<rparr>)"
    "\<not> isWaitingToStart (paused_game\<lparr>inputHandler := new_InputHandler\<rparr>)"
    "isPaused (paused_game\<lparr>inputHandler := new_InputHandler\<rparr>)"
    "\<not> (pauseKeyDown (inputHandler (paused_game\<lparr>inputHandler := new_InputHandler\<rparr>))
        \<and> \<not> pauseKeyWasDown (inputHandler (paused_game\<lparr>inputHandler := new_InputHandler\<rparr>)))"
    by (simp_all add: paused_game_def session_with_def new_InputHandler_def)
  have idle: "Game_update late_clock half_draws (paused_game\<lparr>inputHandler := new_InputHandler\<rparr>)
       = Some (paused_game\<lparr>inputHandler := new_InputHandler\<rparr>, late_clock, half_draws)"
    using C10_resume_keeps_anchor [of "paused_game\<lparr>inputHandler := new_InputHandler\<rparr>"
            late_clock half_draws] idle_flags
    by blast
  from C10_resume_keeps_anchor [of paused_game late_clock half_draws] flags present draws
  obtain g' c' r' where
    "Game_update late_clock half_draws paused_game = Some (g', c', r')"
    "gameStartTime g' = gameStartTime paused_game - (late_clock 1 - late_clock 0)" "\<not> isPaused g'"
    "isGracePeriod g'
       = (late_clock 2 - (gameStartTime paused_game - (late_clock 1 - late_clock 0)) < GRACE_PERIOD)"
    by blast
  then have "graceAnchor (Game_update late_clock half_draws paused_game) = Some (0, False, False)"
    using flags(6) clk by (simp add: graceAnchor_def GRACE_PERIOD_def)
  then show ?thesis using flags clk(1) present draws idle by blast
qed

text \<open>
  What the wall bounce comes to, for any autonomous snake in a wall position: the pending
  heading is set to the reverse, and the next decision and movement of the snake never
  commit it.
\<close>

lemma bounce_then_next_tick:
  assumes "ai_inv s" and "checkWallCollision CANVAS_WIDTH CANVAS_HEIGHT s = Some True"
    and "unit_draws r"
  shows "\<exists>s1 s2 r2 s3. wallBounce s = Some s1 \<and> isReverse (nextDirection s1) (direction s)
           \<and> AISnake_updateAI CANVAS_WIDTH CANVAS_HEIGHT r s1 = Some (s2, r2)
           \<and> AISnake_update s2 = Some s3
           \<and> direction s3 \<noteq> nextDirection s1
           \<and> \<not> isReverse (direction s3) (direction s)"
proof -
  from wallBounce_ok [OF assms(1)] assms(2) obtain s1 where
    s1: "wallBounce s = Some s1" "ai_inv s1" "direction s1 = direction s"
        "isReverse (nextDirection s1) (direction s)"
    by blast
  from AISnake_updateAI_ok [OF assms(3) s1(2), of CANVAS_WIDTH CANVAS_HEIGHT] obtain s2 r2 where
    s2: "AISnake_updateAI CANVAS_WIDTH CANVAS_HEIGHT r s1 = Some (s2, r2)" "ai_inv s2"
        "direction s2 = direction s1"
        "nextDirection s2 = nextDirection s1 \<or> \<not> isReverse (nextDirection s2) (direction s1)"
    by blast
  from AISnake_update_ok [OF s2(2)] obtain s3 where
    s3: "AISnake_update s2 = Some s3"
        "direction s3 = (if isReverse (nextDirection s2) (direction s2) then direction s2
                         else nextDirection s2)"
    by blast
  have u: "isUnit (direction s)" using assms(1) by (simp add: ai_inv_def)
  have notrev: "\<not> isReverse (direction s3) (direction s)"
    using s3(2) s2(3) s1(3) isUnit_not_self_reverse [OF u] by (auto split: if_splits)
  have "direction s3 \<noteq> nextDirection s1"
    using notrev s1(4) by auto
  then show ?thesis using s1(1,4) s2(1) s3(1) notrev by blast
qed

text \<open>
  C2 on the code. An autonomous snake heading right with its head at \<open>(970, 150)\<close>:
  the first tick moves it to \<open>(990, 150)\<close>, a wall position, and the bounce sets its
  pending heading to left, the exact reverse. The second tick does not commit that
  heading: the snake still heads right and its head is at \<open>(1010, 150)\<close>, beyond the
  canvas; the bounce block then sets the same pending heading again.
\<close>

theorem C2_bounce_is_never_committed:
  "aiHeadings (ticks 0 early_clock half_draws bounce_game)
     = Some [(Some \<lparr>vx = 970, vy = 150\<rparr>, \<lparr>vx = 1, vy = 0\<rparr>, \<lparr>vx = 1, vy = 0\<rparr>)]
   \<and> aiHeadings (ticks (Suc 0) early_clock half_draws bounce_game)
     = Some [(Some \<lparr>vx = 990, vy = 150\<rparr>, \<lparr>vx = 1, vy = 0\<rparr>, \<lparr>vx = -1, vy = 0\<rparr>)]
   \<and> aiHeadings (ticks (Suc (Suc 0)) early_clock half_draws bounce_game)
     = Some [(Some \<lparr>vx = 1010, vy = 150\<rparr>, \<lparr>vx = 1, vy = 0\<rparr>, \<lparr>vx = -1, vy = 0\<rparr>)]"
  by code_simp


section \<open>The session invariant\<close>

text \<open>
  The theorems above about autonomous snakes and about \<^verbatim>\<open>update\<close> assume snakes with
  segments and unit headings. Every session has them: the constructor establishes the
  invariant \<^const>\<open>session_inv\<close>, and key events and \<^verbatim>\<open>update\<close> keep it.
\<close>

lemma updateAISnakes_ai_inv:
  assumes "list_all ai_inv ss" and "unit_draws r"
  shows "\<exists>ss' r'. updateAISnakes r ss = Some (ss', r') \<and> unit_draws r' \<and> list_all ai_inv ss'"
  using assms
proof (induction ss arbitrary: r)
  case Nil
  then show ?case by simp
next
  case (Cons s ss)
  then have s: "ai_inv s" and ss: "list_all ai_inv ss" by auto
  from AISnake_updateAI_ok [OF Cons.prems(2) s, of CANVAS_WIDTH CANVAS_HEIGHT]
  obtain s1 r1 where s1: "AISnake_updateAI CANVAS_WIDTH CANVAS_HEIGHT r s = Some (s1, r1)"
      "unit_draws r1" "ai_inv s1"
    by blast
  from AISnake_update_ok [OF s1(3)] obtain s2 where
    s2: "AISnake_update s1 = Some s2" "ai_inv s2" by blast
  from Cons.IH [OF ss s1(2)] obtain ss' r' where
    rest: "updateAISnakes r1 ss = Some (ss', r')" "unit_draws r'" "list_all ai_inv ss'"
    by blast
  show ?case using s1(1) s2 rest by simp
qed

lemma wallBounces_ai_inv:
  assumes "list_all ai_inv ss"
  shows "\<exists>ss'. wallBounces ss = Some ss' \<and> list_all ai_inv ss'"
  using assms
proof (induction ss)
  case Nil
  then show ?case by simp
next
  case (Cons s ss)
  then have s: "ai_inv s" and ss: "list_all ai_inv ss" by auto
  from wallBounce_ok [OF s] obtain s' where "wallBounce s = Some s'" "ai_inv s'" by blast
  moreover from Cons.IH [OF ss] obtain ss' where "wallBounces ss = Some ss'" "list_all ai_inv ss'"
    by blast
  ultimately show ?case by simp
qed

lemma checkPauseToggle_inv: "input_inv h \<Longrightarrow> input_inv (snd (checkPauseToggle h))"
  using input_step_inv [of h CheckPauseToggle] by simp

lemma checkStartPressed_inv: "input_inv h \<Longrightarrow> input_inv (snd (checkStartPressed h))"
  using input_step_inv [of h CheckStartPressed] by simp

lemma waitingStep_inv:
  assumes "session_inv g"
  shows "session_inv (fst (waitingStep c g))"
proof -
  have a: "input_inv (snd (checkStartPressed (inputHandler g)))"
    using assms by (simp add: session_inv_def checkStartPressed_inv)
  then have b: "input_inv (snd (checkPauseToggle (snd (checkStartPressed (inputHandler g)))))"
    by (rule checkPauseToggle_inv)
  show ?thesis
    using assms a b
    by (auto simp: waitingStep_def session_inv_def snakes_present_def Date_now_def Let_def
          split: prod.splits if_splits)
qed

lemma pauseStep_inv:
  assumes "session_inv g"
  shows "session_inv (fst (pauseStep c g))"
proof -
  have "input_inv (snd (checkPauseToggle (inputHandler g)))"
    using assms by (simp add: session_inv_def checkPauseToggle_inv)
  then show ?thesis
    using assms
    by (auto simp: pauseStep_def session_inv_def snakes_present_def Date_now_def Let_def
          split: prod.splits if_splits)
qed

lemma foodStep_inputHandler:
  "foodStep r g = Some (g3, r3) \<Longrightarrow> inputHandler g3 = inputHandler g"
  by (auto simp: foodStep_def updateUI_def Let_def split: option.splits if_splits prod.splits)

lemma wallBounces_present:
  "wallBounces ss = Some ss' \<Longrightarrow> list_all ai_inv ss' \<Longrightarrow> list_all (\<lambda>s. segments s \<noteq> []) ss'"
  by (auto simp: list_all_iff ai_inv_def)

text \<open>
  From a state with the session invariant and with draws in the unit interval,
  \<^verbatim>\<open>update\<close> returns (no TypeError), and the invariant holds again.
\<close>

theorem Game_update_keeps_session:
  assumes inv: "session_inv g" and draws: "unit_draws r"
  shows "\<exists>g' c' r'. Game_update c r g = Some (g', c', r') \<and> session_inv g' \<and> unit_draws r'"
proof (cases "isGameOver g")
  case True
  then show ?thesis using inv draws by (simp add: Game_update_def)
next
  case over: False
  show ?thesis
  proof (cases "isWaitingToStart g")
    case True
    obtain g1 c1 where w: "waitingStep c g = (g1, c1)" by (cases "waitingStep c g")
    then have "session_inv g1" using waitingStep_inv [OF inv, of c] by simp
    then show ?thesis using over True w draws by (simp add: Game_update_def)
  next
    case waiting: False
    obtain g1 c1 where ps: "pauseStep c g = (g1, c1)" by (cases "pauseStep c g")
    then have inv1: "session_inv g1" using pauseStep_inv [OF inv, of c] by simp
    show ?thesis
    proof (cases "isPaused g1")
      case True
      then show ?thesis using over waiting ps inv1 draws by (simp add: Game_update_def)
    next
      case np: False
      have present1: "snakes_present g1" and ai1: "list_all ai_inv (aiSnakes g1)"
        and in1: "input_inv (inputHandler g1)"
        using inv1 by (simp_all add: session_inv_def)
      from moveStep_returns [OF present1 draws, of c1] obtain g2 c2 r2 where
        move: "moveStep c1 r g1 = Some (g2, c2, r2)" and r2: "unit_draws r2"
        and present2: "snakes_present g2" by blast
      note m = moveStep_Some [OF move]
      from updateAISnakes_ai_inv [OF ai1 draws] m(16) have ai2: "list_all ai_inv (aiSnakes g2)"
        by auto
      have in2: "input_inv (inputHandler g2)"
        using m(14) getNextDirection_inv [OF in1] by simp
      have inv2: "session_inv g2" using present2 ai2 in2 by (simp add: session_inv_def)
      have p: "segments (playerSnake g2) \<noteq> []" using present2 by (simp add: snakes_present_def)
      obtain fatal where fatal: "snd (fatalCollision g2) = Some fatal"
      proof (cases "isGracePeriod g2")
        case True
        then show ?thesis using that [of False] by (simp add: fatalCollision_grace)
      next
        case False
        from p obtain head rest where "segments (playerSnake g2) = head # rest"
          by (cases "segments (playerSnake g2)") auto
        from fatalCollision_eq [OF False this] show ?thesis using that by blast
      qed
      show ?thesis
      proof (cases fatal)
        case True
        then have "Game_update c r g = Some (gameOver g2, c2, r2)"
          using Game_update_running [OF over waiting ps np move] fatal by simp
        moreover have "session_inv (gameOver g2)"
          using inv2 by (simp add: session_inv_def snakes_present_def gameOver_def updateUI_def)
        ultimately show ?thesis using r2 by blast
      next
        case False
        then have safe: "snd (fatalCollision g2) = Some False" using fatal by simp
        from Game_update_not_fatal [OF over waiting ps np move safe] obtain g3 r3 snakes where
          rest: "foodStep r2 g2 = Some (g3, r3)" "wallBounces (aiSnakes g2) = Some snakes"
                "Game_update c r g = Some (g3\<lparr>aiSnakes := snakes\<rparr>, c2, r3)"
                "segments (playerSnake g3) \<noteq> []" "unit_draws r2 \<longrightarrow> unit_draws r3"
          by blast
        from wallBounces_ai_inv [OF ai2] rest(2) have ai3: "list_all ai_inv snakes" by auto
        have "session_inv (g3\<lparr>aiSnakes := snakes\<rparr>)"
          using rest(4) ai3 wallBounces_present [OF rest(2) ai3] foodStep_inputHandler [OF rest(1)] in2
          by (simp add: session_inv_def snakes_present_def)
        then show ?thesis using rest(3,5) r2 by blast
      qed
    qed
  qed
qed

lemma spawnAISnakes_ai_inv:
  assumes "unit_draws r"
  shows "\<exists>ss r'. spawnAISnakes ps r = Some (ss, r') \<and> unit_draws r' \<and> list_all ai_inv ss"
  using assms
proof (induction ps arbitrary: r)
  case Nil
  then show ?case by simp
next
  case (Cons spawnPos rest)
  obtain u r1 where a: "Math_random r = (u, r1)" by (cases "Math_random r")
  have u: "0 \<le> u" "u < 1" and r1: "unit_draws r1" using Math_random_unit [OF Cons.prems a] by auto
  obtain v r2 where b: "Math_random r1 = (v, r2)" by (cases "Math_random r1")
  have v: "0 \<le> v" "v < 1" and r2: "unit_draws r2" using Math_random_unit [OF r1 b] by auto
  obtain w r3 where c: "Math_random r2 = (w, r3)" by (cases "Math_random r2")
  have r3: "unit_draws r3" using Math_random_unit [OF r2 c] by auto
  obtain e r4 where d: "Math_random r3 = (e, r4)" by (cases "Math_random r3")
  have r4: "unit_draws r4" using Math_random_unit [OF r3 d] by auto
  have len: "0 \<le> \<lfloor>u * 3\<rfloor>" using u by simp
  have k: "0 \<le> \<lfloor>v * of_nat (length directions)\<rfloor>"
          "\<lfloor>v * of_nat (length directions)\<rfloor> < int (length directions)"
    using floor_scaled_draw [OF v, of "length directions"] by (simp_all add: directions_def)
  then have "nat \<lfloor>v * of_nat (length directions)\<rfloor> < length directions" by linarith
  then have dir: "isUnit (directions ! nat \<lfloor>v * of_nat (length directions)\<rfloor>)"
    unfolding isUnit_def by (rule nth_mem)
  have "0 < nat (6 + \<lfloor>u * 3\<rfloor>)" using len by linarith
  then have seg: "segments (new_Snake x y False (nat (6 + \<lfloor>u * 3\<rfloor>))) \<noteq> []" for x y
    by (simp add: new_Snake_def)
  from Cons.IH [OF r4] obtain ss r' where
    ih: "spawnAISnakes rest r4 = Some (ss, r')" "unit_draws r'" "list_all ai_inv ss" by blast
  show ?case
    using a b c d k dir seg ih
    by (auto simp: new_AISnake_def Let_def ai_inv_def list_all_iff)
qed

text \<open>The constructor returns a waiting session with the invariant.\<close>

theorem new_Game_session:
  assumes "unit_draws r"
  shows "\<exists>g c' r'. new_Game page c r = Some (g, c', r') \<and> session_inv g \<and> unit_draws r'
           \<and> isWaitingToStart g \<and> \<not> isGameOver g"
proof -
  from spawnAISnakes_ai_inv [OF assms, of spawnPositions] obtain ss r1 where
    sp: "spawnAISnakes spawnPositions r = Some (ss, r1)" "unit_draws r1" "list_all ai_inv ss"
    by blast
  have inp: "input_inv new_InputHandler"
    by (simp add: input_inv_def new_InputHandler_def isUnit_cases)
  have pl: "segments (new_Snake x y True 6) \<noteq> []" for x y
    by (simp add: new_Snake_def upt_rec)
  have ne: "list_all (\<lambda>s. segments s \<noteq> []) ss"
    using sp(3) by (auto simp: list_all_iff ai_inv_def)
  show ?thesis
    using sp inp pl ne Food_respawn_unit_draws [OF sp(2)]
    by (simp add: new_Game_def Date_now_def Let_def updateUI_def session_inv_def
          snakes_present_def case_prod_beta)
qed

text \<open>The keyboard listeners keep it too.\<close>

lemma key_events_keep_session:
  assumes "session_inv g"
  shows "session_inv (g\<lparr>inputHandler := handleKeyDown k (inputHandler g)\<rparr>)"
    and "session_inv (g\<lparr>inputHandler := handleKeyUp k (inputHandler g)\<rparr>)"
  using assms input_step_inv [of "inputHandler g" "KeyDown k"]
        input_step_inv [of "inputHandler g" "KeyUp k"]
  by (simp_all add: session_inv_def snakes_present_def)

end
